theory Spec2Isabelle
  imports Complex_Main "HOL-Library.Word"
begin

unbundle bit_operations_syntax

section \<open>Geometry: points, rectangles, regions\<close>

text \<open>
  A \<^verbatim>\<open>QPoint\<close> is a pair of integer coordinates; \<^verbatim>\<open>operator+\<close> and
  \<^verbatim>\<open>operator-\<close> work componentwise. Coordinates are unbounded integers here: the
  ends of the range of \<^verbatim>\<open>int\<close>, where the sums of the code overflow, are left out.
\<close>

type_synonym QPoint = "int \<times> int"

definition padd :: "QPoint \<Rightarrow> QPoint \<Rightarrow> QPoint" where
  "padd p q = (fst p + fst q, snd p + snd q)"

definition psub :: "QPoint \<Rightarrow> QPoint \<Rightarrow> QPoint" where
  "psub p q = (fst p - fst q, snd p - snd q)"

text \<open>
  A \<^verbatim>\<open>QRect\<close> with its four inclusive edges, as \<^verbatim>\<open>left()\<close>, \<^verbatim>\<open>top()\<close>,
  \<^verbatim>\<open>right()\<close> and \<^verbatim>\<open>bottom()\<close> return them.
\<close>

record QRect =
  rect_left :: int
  rect_top :: int
  rect_right :: int
  rect_bottom :: int

definition rect_contains :: "QRect \<Rightarrow> QPoint \<Rightarrow> bool" where
  "rect_contains r p \<longleftrightarrow>
     rect_left r \<le> fst p \<and> fst p \<le> rect_right r \<and> rect_top r \<le> snd p \<and> snd p \<le> rect_bottom r"

text \<open>
  A \<^verbatim>\<open>QRegion\<close> is the union of its rectangles, enumerated in order by the
  range-based \<^verbatim>\<open>for\<close> over the region (or by \<^verbatim>\<open>rects()\<close>).
\<close>

type_synonym QRegion = "QRect list"

definition contains :: "QRegion \<Rightarrow> QPoint \<Rightarrow> bool" where
  "contains region p = list_ex (\<lambda>r. rect_contains r p) region"

section \<open>Tiles, cells and layers\<close>

text \<open>A \<^verbatim>\<open>Tile *\<close> is the identity of a tile; the null pointer is \<open>None\<close>.\<close>

type_synonym Tile = nat

text \<open>
  Modelled from the spec: \<^verbatim>\<open>Cell\<close> (tilelayer.h) is not among the sources. A cell
  is a tile or empty.
\<close>

type_synonym Cell = "Tile option"

definition isEmpty :: "Cell \<Rightarrow> bool" where
  "isEmpty c \<longleftrightarrow> c = None"

text \<open>
  Modelled from the spec: \<^verbatim>\<open>TileLayer\<close> (tilelayer.h) is not among the sources. A
  layer is a placement surface with an offset and its cells; it supports point read and
  point write on coordinates relative to the offset, and a coordinate never written reads
  as the empty cell.
\<close>

record TileLayer =
  layer_x :: int
  layer_y :: int
  cells :: "QPoint \<Rightarrow> Cell"

definition position :: "TileLayer \<Rightarrow> QPoint" where
  "position l = (layer_x l, layer_y l)"

definition cellAt :: "TileLayer \<Rightarrow> QPoint \<Rightarrow> Cell" where
  "cellAt l p = cells l p"

definition setCell :: "TileLayer \<Rightarrow> int \<Rightarrow> int \<Rightarrow> Cell \<Rightarrow> TileLayer" where
  "setCell l lx ly c = l\<lparr>cells := (cells l)((lx, ly) := c)\<rparr>"

section \<open>Neighbour topology\<close>

datatype StaggerAxis = StaggerX | StaggerY

text \<open>
  The staggered renderer (staggeredrenderer.h) is not among the sources: its four
  diagonal-neighbour primitives and its map's stagger axis are taken as they are given.
\<close>

record StaggeredRenderer =
  topRight :: "int \<Rightarrow> int \<Rightarrow> QPoint"
  bottomRight :: "int \<Rightarrow> int \<Rightarrow> QPoint"
  bottomLeft :: "int \<Rightarrow> int \<Rightarrow> QPoint"
  topLeft :: "int \<Rightarrow> int \<Rightarrow> QPoint"
  staggerAxis :: StaggerAxis

definition aroundTilePoints :: "QPoint list" where
  "aroundTilePoints =
     [( 0, -1), ( 1, -1), ( 1,  0), ( 1,  1), ( 0,  1), (-1,  1), (-1,  0), (-1, -1)]"

text \<open>
  \<^verbatim>\<open>getSurroundingPoints\<close> fills an array of eight points; the model returns the array
  as a list. A null renderer is \<open>None\<close>.
\<close>

definition getSurroundingPoints :: "QPoint \<Rightarrow> StaggeredRenderer option \<Rightarrow> QPoint list" where
  "getSurroundingPoints point staggeredRenderer =
     (case staggeredRenderer of
        Some sr \<Rightarrow>
          (let p0 = topRight sr (fst point) (snd point);
               p2 = bottomRight sr (fst point) (snd point);
               p4 = bottomLeft sr (fst point) (snd point);
               p6 = topLeft sr (fst point) (snd point)
           in if staggerAxis sr = StaggerX
              then [p0, padd point (2, 0), p2, padd point (0, 1),
                    p4, padd point (-2, 0), p6, padd point (0, -1)]
              else [p0, padd point (1, 0), p2, padd point (0, 2),
                    p4, padd point (-1, 0), p6, padd point (0, -2)])
      | None \<Rightarrow> map (\<lambda>i. padd point (aroundTilePoints ! i)) [0..<8])"

section \<open>The view of the surroundings\<close>

definition getCell :: "TileLayer \<Rightarrow> TileLayer \<Rightarrow> QRegion \<Rightarrow> QPoint \<Rightarrow> Cell" where
  "getCell back front fillRegion point =
     (if contains fillRegion point
      then cellAt front (fst point - layer_x front, snd point - layer_y front)
      else cellAt back point)"

section \<open>Terrain constraints\<close>

text \<open>
  Modelled from the spec: \<^verbatim>\<open>WangId\<close> (wangset.h) is not among the sources. It is an
  8-slot vector of colour values, one per direction in the order N, NE, E, SE, S, SW, W,
  NW, slot value 0 meaning unconstrained. The source converts it to \<^verbatim>\<open>unsigned\<close>
  (32 bits) and combines it bitwise with its mask, so the eight slots are the eight
  4-bit groups of a 32-bit word, slot 0 lowest.
\<close>

type_synonym WangId = "32 word"

definition NumIndexes :: nat where
  "NumIndexes = 8"

definition Top :: nat where "Top = 0"
definition Right :: nat where "Right = 2"
definition Bottom :: nat where "Bottom = 4"
definition Left :: nat where "Left = 6"

text \<open>Modelled from the spec: the colour in slot \<open>i\<close> of a \<^verbatim>\<open>WangId\<close>, and writing it.\<close>

definition indexColor :: "WangId \<Rightarrow> nat \<Rightarrow> 32 word" where
  "indexColor w i = drop_bit (i * 4) w AND 15"

definition setIndexColor :: "WangId \<Rightarrow> nat \<Rightarrow> 32 word \<Rightarrow> WangId" where
  "setIndexColor w i v = (w AND NOT (push_bit (i * 4) 15)) OR push_bit (i * 4) (v AND 15)"

text \<open>
  Modelled from the spec: \<^verbatim>\<open>WangId::mask()\<close>, the set of constrained slots as a bit
  mask: all four bits of every slot whose colour is not 0.
\<close>

definition wangId_mask :: "WangId \<Rightarrow> 32 word" where
  "wangId_mask w =
     fold (\<lambda>i m. if indexColor w i \<noteq> 0 then m OR push_bit (i * 4) 15 else m) [0..<NumIndexes] 0"

text \<open>
  Modelled from the spec: \<^verbatim>\<open>WangId::oppositeIndex\<close>, the table N\<open>\<leftrightarrow>\<close>S,
  NE\<open>\<leftrightarrow>\<close>SW, E\<open>\<leftrightarrow>\<close>W, SE\<open>\<leftrightarrow>\<close>NW.
\<close>

definition oppositeIndex :: "nat \<Rightarrow> nat" where
  "oppositeIndex i = (i + 4) mod NumIndexes"

text \<open>
  Modelled from the spec: \<^verbatim>\<open>WangId::mergeFromAdjacent(adjacent, position)\<close> sets the
  single slot \<open>pos\<close>, the one facing the adjacent cell, to the colour the adjacent
  cell has facing back; no other slot is written.
\<close>

definition mergeFromAdjacent :: "WangId \<Rightarrow> WangId \<Rightarrow> nat \<Rightarrow> WangId" where
  "mergeFromAdjacent w adjacent pos =
     setIndexColor w pos (indexColor adjacent (oppositeIndex pos))"

text \<open>
  Modelled from the spec: \<^verbatim>\<open>WangId::updateToAdjacent(adjacent, position)\<close> sets the
  slot \<open>pos\<close> of a neighbour's constraint, the one facing the placed cell, to the
  colour the placed cell has facing that neighbour.
\<close>

definition updateToAdjacent :: "WangId \<Rightarrow> WangId \<Rightarrow> nat \<Rightarrow> WangId" where
  "updateToAdjacent w adjacent pos =
     setIndexColor w pos (indexColor adjacent (oppositeIndex pos))"

section \<open>The catalog\<close>

text \<open>
  Modelled from the spec: \<^verbatim>\<open>WangTile\<close> (wangset.h) is not among the sources. It
  refers to a placeable tile and carries the constraint the tile satisfies when placed; the
  default-constructed one refers to no tile. \<^verbatim>\<open>makeCell\<close> gives the cell showing the
  tile, the empty cell when there is none.
\<close>

record WangTile =
  tile :: "Tile option"
  wangId :: WangId

definition WangTile_default :: WangTile where
  "WangTile_default = \<lparr>tile = None, wangId = 0\<rparr>"

definition makeCell :: "WangTile \<Rightarrow> Cell" where
  "makeCell t = tile t"

text \<open>
  The \<^verbatim>\<open>WangSet\<close> (wangset.h) is not among the sources: the queries the filler makes
  are taken as they are given, one field per query.
\<close>

record WangSet =
  wangTilesByWangId :: "WangTile list"
  wangTileProbability :: "WangTile \<Rightarrow> real"
  findMatchingWangTiles :: "WangId \<Rightarrow> WangTile list"
  isComplete :: bool
  wildWangIdIsUsed :: "WangId \<Rightarrow> bool"
  wangIdOfCell :: "Cell \<Rightarrow> WangId"
  wangIdFromSurrounding :: "Cell list \<Rightarrow> WangId"

section \<open>Weighted random selection\<close>

text \<open>
  The pseudo-random source is an input of the model: the sequence of the draws still to
  come. A draw takes the first and leaves the rest.
\<close>

type_synonym Rng = "nat \<Rightarrow> nat"

definition draw :: "Rng \<Rightarrow> nat \<times> Rng" where
  "draw rng = (rng 0, \<lambda>n. rng (Suc n))"

text \<open>
  Modelled from the spec: \<^verbatim>\<open>RandomPicker\<close> (randompicker.h) is not among the sources.
  It is a weighted pool of values: \<^verbatim>\<open>add\<close> puts a value in with its weight,
  \<^verbatim>\<open>pick\<close> selects one of the values in the pool, \<^verbatim>\<open>take\<close> selects one and removes
  it. Which entry a draw lands on is decided by the random source; how likely each entry
  is (the role of the weights) is outside the model. Both \<^verbatim>\<open>pick\<close> and \<^verbatim>\<open>take\<close>
  require a pool that is not empty, which every caller checks first.
\<close>

type_synonym 'a RandomPicker = "('a \<times> real) list"

definition rp_add :: "'a RandomPicker \<Rightarrow> 'a \<Rightarrow> real \<Rightarrow> 'a RandomPicker" where
  "rp_add rp v probability = rp @ [(v, probability)]"

definition rp_clear :: "'a RandomPicker" where
  "rp_clear = []"

definition rp_isEmpty :: "'a RandomPicker \<Rightarrow> bool" where
  "rp_isEmpty rp \<longleftrightarrow> rp = []"

definition rp_pick :: "'a RandomPicker \<Rightarrow> Rng \<Rightarrow> 'a \<times> Rng" where
  "rp_pick rp rng = (let (r, rng') = draw rng in (fst (rp ! (r mod length rp)), rng'))"

definition rp_take :: "'a RandomPicker \<Rightarrow> Rng \<Rightarrow> 'a \<times> 'a RandomPicker \<times> Rng" where
  "rp_take rp rng =
     (let (r, rng') = draw rng; i = r mod length rp
      in (fst (rp ! i), take i rp @ drop (Suc i) rp, rng'))"

text \<open>
  The candidates a pool gives when it is drawn from until it is empty, in the order they are
  drawn; the last of them is the last candidate drawn.
\<close>

fun drawSeq :: "nat \<Rightarrow> 'a RandomPicker \<Rightarrow> Rng \<Rightarrow> 'a list" where
  "drawSeq 0 rp rng = []"
| "drawSeq (Suc n) rp rng =
     (let taken = rp_take rp rng
      in fst taken # drawSeq n (fst (snd taken)) (snd (snd taken)))"

definition drawAll :: "'a RandomPicker \<Rightarrow> Rng \<Rightarrow> 'a list" where
  "drawAll rp rng = drawSeq (length rp) rp rng"

section \<open>Best-match search\<close>

definition INT_MAX :: int where
  "INT_MAX = 2147483647"

text \<open>The inner loop of \<^verbatim>\<open>findBestMatch\<close>: the number of slots whose colours differ.\<close>

definition penalty :: "WangId \<Rightarrow> WangId \<Rightarrow> int" where
  "penalty a b =
     fold (\<lambda>i pen. if indexColor a i \<noteq> indexColor b i then pen + 1 else pen) [0..<NumIndexes] 0"

text \<open>
  The outer loop of \<^verbatim>\<open>findBestMatch\<close> over the catalog, with the loop's state: the
  pool \<^verbatim>\<open>matches\<close> and \<^verbatim>\<open>lowestPenalty\<close>.
\<close>

fun findBestMatch_loop ::
  "WangSet \<Rightarrow> WangId \<Rightarrow> 32 word \<Rightarrow> 32 word \<Rightarrow> WangTile list \<Rightarrow>
   WangTile RandomPicker \<times> int \<Rightarrow> WangTile RandomPicker \<times> int" where
  "findBestMatch_loop wangSet wid m maskedWangId [] (matches, lowestPenalty) =
     (matches, lowestPenalty)"
| "findBestMatch_loop wangSet wid m maskedWangId (wangTile # rest) (matches, lowestPenalty) =
     (if (wangId wangTile AND m) \<noteq> maskedWangId
      then findBestMatch_loop wangSet wid m maskedWangId rest (matches, lowestPenalty)
      else
        let pen = penalty (wangId wangTile) wid in
        if pen \<le> lowestPenalty
        then
          let (matches', lowestPenalty') =
                (if pen < lowestPenalty then (rp_clear, pen) else (matches, lowestPenalty))
          in findBestMatch_loop wangSet wid m maskedWangId rest
               (rp_add matches' wangTile (wangTileProbability wangSet wangTile), lowestPenalty')
        else findBestMatch_loop wangSet wid m maskedWangId rest (matches, lowestPenalty))"

definition findBestMatch :: "WangSet \<Rightarrow> WangId \<Rightarrow> Rng \<Rightarrow> WangTile \<times> Rng" where
  "findBestMatch wangSet wid rng =
     (let m = wangId_mask wid;
          maskedWangId = wid AND m;
          (matches, lowestPenalty) =
             findBestMatch_loop wangSet wid m maskedWangId (wangTilesByWangId wangSet)
               (rp_clear, INT_MAX)
      in if \<not> rp_isEmpty matches then rp_pick matches rng else (WangTile_default, rng))"

section \<open>The filler\<close>

text \<open>The \<^verbatim>\<open>WangFiller\<close> object: its Wang set and its renderer, null when the map is not staggered.\<close>

record WangFiller =
  mWangSet :: WangSet
  mStaggeredRenderer :: "StaggeredRenderer option"

definition wangIdFromSurroundings ::
  "WangFiller \<Rightarrow> TileLayer \<Rightarrow> TileLayer \<Rightarrow> QRegion \<Rightarrow> QPoint \<Rightarrow> WangId" where
  "wangIdFromSurroundings filler back front fillRegion point =
     (let adjacentPoints = getSurroundingPoints point (mStaggeredRenderer filler);
          surroundingCells = map (\<lambda>i. getCell back front fillRegion (adjacentPoints ! i)) [0..<8]
      in wangIdFromSurrounding (mWangSet filler) surroundingCells)"

subsection \<open>Fitting a single cell\<close>

text \<open>
  The loop over the eight adjacent points inside the \<^verbatim>\<open>while\<close> loop of
  \<^verbatim>\<open>findFittingCell\<close>: the value of \<^verbatim>\<open>continueFlag\<close> when the loop is left, true
  when some empty adjacent point could not be filled any more next to \<open>wangTile\<close>.
\<close>

definition continueFlag ::
  "WangFiller \<Rightarrow> TileLayer \<Rightarrow> TileLayer \<Rightarrow> QRegion \<Rightarrow> QPoint \<Rightarrow> WangTile \<Rightarrow> bool" where
  "continueFlag filler back front fillRegion point wangTile =
     (let adjacentPoints = getSurroundingPoints point (mStaggeredRenderer filler)
      in list_ex
           (\<lambda>i. let adjacentPoint = adjacentPoints ! i
                in if \<not> isEmpty (getCell back front fillRegion adjacentPoint) then False
                   else
                     let adjacentWangId =
                           updateToAdjacent
                             (wangIdFromSurroundings filler back front fillRegion adjacentPoint)
                             (wangId wangTile) (oppositeIndex i)
                     in \<not> wildWangIdIsUsed (mWangSet filler) adjacentWangId)
           [0..<8])"

text \<open>
  The \<^verbatim>\<open>while\<close> loop of \<^verbatim>\<open>findFittingCell\<close>, with its state: the pool, the random
  source and the variable \<^verbatim>\<open>wangTile\<close>. Every round takes one entry out of the pool.
\<close>

function takeLoop ::
  "WangFiller \<Rightarrow> TileLayer \<Rightarrow> TileLayer \<Rightarrow> QRegion \<Rightarrow> QPoint \<Rightarrow>
   WangTile RandomPicker \<Rightarrow> Rng \<Rightarrow> WangTile \<Rightarrow> WangTile \<times> Rng" where
  "takeLoop filler back front fillRegion point wangTiles rng wangTile =
     (if rp_isEmpty wangTiles then (wangTile, rng)
      else
        let taken = rp_take wangTiles rng;
            wangTile' = fst taken
        in if \<not> continueFlag filler back front fillRegion point wangTile'
           then (wangTile', snd (snd taken))
           else takeLoop filler back front fillRegion point (fst (snd taken)) (snd (snd taken)) wangTile')"
  by pat_completeness auto
termination
proof (relation "measure (\<lambda>(filler, b, f, region, point, wangTiles, rng, wangTile). length wangTiles)")
  show "wf (measure (\<lambda>(filler, b, f, region, point, wangTiles, rng, wangTile). length wangTiles))"
    by simp
next
  fix filler :: WangFiller and b f :: TileLayer and region :: QRegion and point :: QPoint
    and wangTiles :: "WangTile RandomPicker" and rng :: Rng and wangTile :: WangTile
    and taken wangTile'
  assume ne: "\<not> rp_isEmpty wangTiles" and tk: "taken = rp_take wangTiles rng"
  have "rng 0 mod length wangTiles < length wangTiles"
    using ne by (simp add: rp_isEmpty_def)
  then have "length (fst (snd (rp_take wangTiles rng))) < length wangTiles"
    by (simp add: rp_take_def draw_def Let_def)
  then show "((filler, b, f, region, point, fst (snd taken), snd (snd taken), wangTile'),
              (filler, b, f, region, point, wangTiles, rng, wangTile))
             \<in> measure (\<lambda>(filler, b, f, region, point, wangTiles, rng, wangTile). length wangTiles)"
    using tk by simp
qed

declare takeLoop.simps [simp del]

definition findFittingCell ::
  "WangFiller \<Rightarrow> TileLayer \<Rightarrow> TileLayer \<Rightarrow> QRegion \<Rightarrow> QPoint \<Rightarrow> Rng \<Rightarrow> Cell \<times> Rng" where
  "findFittingCell filler back front fillRegion point rng =
     (let wid = wangIdFromSurroundings filler back front fillRegion point;
          wangTilesList = findMatchingWangTiles (mWangSet filler) wid;
          wangTiles =
            fold (\<lambda>wangTile rp. rp_add rp wangTile (wangTileProbability (mWangSet filler) wangTile))
              wangTilesList rp_clear
      in if rp_isEmpty wangTiles then (None, rng)
         else if isComplete (mWangSet filler)
         then (let picked = rp_pick wangTiles rng in (makeCell (fst picked), snd picked))
         else
           (let found = takeLoop filler back front fillRegion point wangTiles rng WangTile_default
            in (makeCell (fst found), snd found)))"

subsection \<open>Filling a region\<close>

text \<open>
  Modelled from the spec: \<^verbatim>\<open>Grid<WangId>\<close> (grid.h) is not among the sources. It is a
  sparse mapping from coordinates to constraints; a coordinate with no entry reads as the
  fully unconstrained \<^verbatim>\<open>WangId()\<close>.
\<close>

type_synonym Grid = "QPoint \<rightharpoonup> WangId"

definition grid_get :: "Grid \<Rightarrow> QPoint \<Rightarrow> WangId" where
  "grid_get g p = (case g p of None \<Rightarrow> 0 | Some w \<Rightarrow> w)"

definition grid_set :: "Grid \<Rightarrow> QPoint \<Rightarrow> WangId \<Rightarrow> Grid" where
  "grid_set g p w = g(p \<mapsto> w)"

text \<open>
  One merge of the first phase: when the point \<open>outside\<close> is not in the region, the
  constraint of the tile the background has there is merged into the entry of the cell
  \<open>inside\<close>, at the slot \<open>pos\<close>.
\<close>

definition seedFrom ::
  "WangFiller \<Rightarrow> TileLayer \<Rightarrow> QRegion \<Rightarrow> QPoint \<Rightarrow> QPoint \<Rightarrow> nat \<Rightarrow> Grid \<Rightarrow> Grid" where
  "seedFrom filler back region outside inside pos wangIds =
     (if \<not> contains region outside
      then
        let outsideWangId = wangIdOfCell (mWangSet filler) (cellAt back outside);
            wid = grid_get wangIds inside
        in grid_set wangIds inside (mergeFromAdjacent wid outsideWangId pos)
      else wangIds)"

text \<open>The body of the loop over \<open>x\<close>, and that of the loop over \<open>y\<close>, for one rectangle.\<close>

definition seedColumn :: "WangFiller \<Rightarrow> TileLayer \<Rightarrow> QRegion \<Rightarrow> QRect \<Rightarrow> int \<Rightarrow> Grid \<Rightarrow> Grid" where
  "seedColumn filler back region rect x wangIds =
     (let top = (x, rect_top rect - 1);
          bottom = (x, rect_bottom rect + 1);
          wangIds1 = seedFrom filler back region top (x, rect_top rect) Top wangIds
      in seedFrom filler back region bottom (x, rect_bottom rect) Bottom wangIds1)"

definition seedRow :: "WangFiller \<Rightarrow> TileLayer \<Rightarrow> QRegion \<Rightarrow> QRect \<Rightarrow> int \<Rightarrow> Grid \<Rightarrow> Grid" where
  "seedRow filler back region rect y wangIds =
     (let left = (rect_left rect - 1, y);
          right = (rect_right rect + 1, y);
          wangIds1 = seedFrom filler back region left (rect_left rect, y) Left wangIds
      in seedFrom filler back region right (rect_right rect, y) Right wangIds1)"

definition seedRect :: "WangFiller \<Rightarrow> TileLayer \<Rightarrow> QRegion \<Rightarrow> QRect \<Rightarrow> Grid \<Rightarrow> Grid" where
  "seedRect filler back region rect wangIds =
     (let wangIds1 = fold (seedColumn filler back region rect) [rect_left rect..rect_right rect] wangIds
      in fold (seedRow filler back region rect) [rect_top rect..rect_bottom rect] wangIds1)"

text \<open>The first loop over the rectangles of the region: the borders are seeded.\<close>

definition phaseA :: "WangFiller \<Rightarrow> TileLayer \<Rightarrow> QRegion \<Rightarrow> Grid \<Rightarrow> Grid" where
  "phaseA filler back region wangIds = fold (seedRect filler back region) region wangIds"

text \<open>
  The loop over the eight adjacent points after a placement: the entry of every adjacent
  point whose cell in the target is empty is updated.
\<close>

definition propagateTo :: "TileLayer \<Rightarrow> WangTile \<Rightarrow> QPoint list \<Rightarrow> nat \<Rightarrow> Grid \<Rightarrow> Grid" where
  "propagateTo target wangTile adjacentPoints i wangIds =
     (let p = adjacentPoints ! i
      in if \<not> isEmpty (cellAt target (psub p (position target))) then wangIds
         else
           let adjacentWangId = updateToAdjacent (grid_get wangIds p) (wangId wangTile) (oppositeIndex i)
           in grid_set wangIds p adjacentWangId)"

definition propagate :: "TileLayer \<Rightarrow> WangTile \<Rightarrow> QPoint list \<Rightarrow> Grid \<Rightarrow> Grid" where
  "propagate target wangTile adjacentPoints wangIds =
     fold (propagateTo target wangTile adjacentPoints) [0..<8] wangIds"

text \<open>
  The body of the innermost loop of the second phase, at the cell \<open>(x, y)\<close>. Its state is
  the target layer, the grid of constraints and the random source.
\<close>

type_synonym FillState = "TileLayer \<times> Grid \<times> Rng"

definition fillCell :: "WangFiller \<Rightarrow> QPoint \<Rightarrow> FillState \<Rightarrow> FillState" where
  "fillCell filler xy st =
     (case st of (target, wangIds, rng) \<Rightarrow>
        let found = findBestMatch (mWangSet filler) (grid_get wangIds xy) rng;
            wangTile = fst found;
            rng' = snd found
        in if tile wangTile = None then (target, wangIds, rng')
           else
             let target' = setCell target (fst xy - layer_x target) (snd xy - layer_y target)
                             (makeCell wangTile);
                 adjacentPoints = getSurroundingPoints xy (mStaggeredRenderer filler)
             in (target', propagate target' wangTile adjacentPoints wangIds, rng'))"

definition fillRect :: "WangFiller \<Rightarrow> QRect \<Rightarrow> FillState \<Rightarrow> FillState" where
  "fillRect filler rect st =
     fold (\<lambda>y. fold (\<lambda>x. fillCell filler (x, y)) [rect_left rect..rect_right rect])
       [rect_top rect..rect_bottom rect] st"

text \<open>The second loop over the rectangles of the region: the cells are filled in raster order.\<close>

definition phaseB :: "WangFiller \<Rightarrow> QRegion \<Rightarrow> FillState \<Rightarrow> FillState" where
  "phaseB filler region st = fold (fillRect filler) region st"

text \<open>
  \<^verbatim>\<open>fillRegion\<close> with the grid of constraints given. What the call leaves behind is the
  target layer and the random source; the grid is the function's own copy.
\<close>

definition fillRegion ::
  "WangFiller \<Rightarrow> TileLayer \<Rightarrow> TileLayer \<Rightarrow> Grid \<Rightarrow> QRegion \<Rightarrow> Rng \<Rightarrow> TileLayer \<times> Rng" where
  "fillRegion filler target back wangIds region rng =
     (case phaseB filler region (target, phaseA filler back region wangIds, rng) of
        (target', wangIds', rng') \<Rightarrow> (target', rng'))"

text \<open>The cells of a region in the order the second phase visits them.\<close>

definition rectPoints :: "QRect \<Rightarrow> QPoint list" where
  "rectPoints rect =
     concat (map (\<lambda>y. map (\<lambda>x. (x, y)) [rect_left rect..rect_right rect])
       [rect_top rect..rect_bottom rect])"

definition regionPoints :: "QRegion \<Rightarrow> QPoint list" where
  "regionPoints region = concat (map rectPoints region)"

text \<open>The target layer has a tile at the point \<open>q\<close> of the map.\<close>

definition occupied :: "TileLayer \<Rightarrow> QPoint \<Rightarrow> bool" where
  "occupied target q \<longleftrightarrow> \<not> isEmpty (cellAt target (psub q (position target)))"

subsection \<open>The border of a region\<close>

text \<open>
  The cell next to \<open>p\<close> in the direction of slot \<open>d\<close>, by the offsets of
  \<open>aroundTilePoints\<close>. A cell \<open>p\<close> of the region is a border cell with the slot \<open>d\<close>
  facing outward when \<open>d\<close> is one of the four edge slots and the cell next to \<open>p\<close> in
  that direction is not in the region.
\<close>

definition neighbour :: "QPoint \<Rightarrow> nat \<Rightarrow> QPoint" where
  "neighbour p d = padd p (aroundTilePoints ! d)"

definition outwardFacing :: "QRegion \<Rightarrow> QPoint \<Rightarrow> nat \<Rightarrow> bool" where
  "outwardFacing region p d \<longleftrightarrow>
     contains region p \<and> d \<in> {Top, Right, Bottom, Left} \<and> \<not> contains region (neighbour p d)"

subsection \<open>The call on the caller's objects\<close>

text \<open>
  \<^verbatim>\<open>fillRegion\<close> receives the target and the background by reference and the grid of
  constraints by value. The layers and grids of the caller, and the random source, live in
  a store; \<open>targetRef\<close> and \<open>backRef\<close> name layers of it, and they may name the same
  one. The state of a call is the store and the call's own copy of the grid.
\<close>

record Store =
  layers :: "nat \<Rightarrow> TileLayer"
  grids :: "nat \<Rightarrow> Grid"
  rand :: Rng

type_synonym CallState = "Store \<times> Grid"

text \<open>
  The statements of the first phase as steps on that state: \<^verbatim>\<open>back.cellAt\<close> reads
  the layer the store has at \<open>backRef\<close> at that moment, \<^verbatim>\<open>wangIds.get\<close> and
  \<^verbatim>\<open>wangIds.set\<close> work on the call's copy.
\<close>

definition seedFrom_st ::
  "WangFiller \<Rightarrow> nat \<Rightarrow> QRegion \<Rightarrow> QPoint \<Rightarrow> QPoint \<Rightarrow> nat \<Rightarrow> CallState \<Rightarrow> CallState" where
  "seedFrom_st filler backRef region outside inside pos st =
     (case st of (s, wangIds) \<Rightarrow>
        if \<not> contains region outside
        then
          let outsideWangId = wangIdOfCell (mWangSet filler) (cellAt (layers s backRef) outside);
              wid = grid_get wangIds inside
          in (s, grid_set wangIds inside (mergeFromAdjacent wid outsideWangId pos))
        else (s, wangIds))"

definition seedColumn_st ::
  "WangFiller \<Rightarrow> nat \<Rightarrow> QRegion \<Rightarrow> QRect \<Rightarrow> int \<Rightarrow> CallState \<Rightarrow> CallState" where
  "seedColumn_st filler backRef region rect x st =
     (let top = (x, rect_top rect - 1);
          bottom = (x, rect_bottom rect + 1);
          st1 = seedFrom_st filler backRef region top (x, rect_top rect) Top st
      in seedFrom_st filler backRef region bottom (x, rect_bottom rect) Bottom st1)"

definition seedRow_st ::
  "WangFiller \<Rightarrow> nat \<Rightarrow> QRegion \<Rightarrow> QRect \<Rightarrow> int \<Rightarrow> CallState \<Rightarrow> CallState" where
  "seedRow_st filler backRef region rect y st =
     (let left = (rect_left rect - 1, y);
          right = (rect_right rect + 1, y);
          st1 = seedFrom_st filler backRef region left (rect_left rect, y) Left st
      in seedFrom_st filler backRef region right (rect_right rect, y) Right st1)"

definition seedRect_st ::
  "WangFiller \<Rightarrow> nat \<Rightarrow> QRegion \<Rightarrow> QRect \<Rightarrow> CallState \<Rightarrow> CallState" where
  "seedRect_st filler backRef region rect st =
     (let st1 = fold (seedColumn_st filler backRef region rect) [rect_left rect..rect_right rect] st
      in fold (seedRow_st filler backRef region rect) [rect_top rect..rect_bottom rect] st1)"

definition phaseA_st :: "WangFiller \<Rightarrow> nat \<Rightarrow> QRegion \<Rightarrow> CallState \<Rightarrow> CallState" where
  "phaseA_st filler backRef region st = fold (seedRect_st filler backRef region) region st"

text \<open>
  The statements of the second phase as steps on that state: \<^verbatim>\<open>findBestMatch\<close> draws
  from the random source of the store, \<^verbatim>\<open>target.setCell\<close> writes the layer the store
  has at \<open>targetRef\<close>, and the loop over the adjacent points reads that layer as it is
  after the write.
\<close>

definition fillCell_st :: "WangFiller \<Rightarrow> nat \<Rightarrow> QPoint \<Rightarrow> CallState \<Rightarrow> CallState" where
  "fillCell_st filler targetRef xy st =
     (case st of (s, wangIds) \<Rightarrow>
        let found = findBestMatch (mWangSet filler) (grid_get wangIds xy) (rand s);
            wangTile = fst found;
            s1 = s\<lparr>rand := snd found\<rparr>
        in if tile wangTile = None then (s1, wangIds)
           else
             let target = layers s1 targetRef;
                 s2 = s1\<lparr>layers := (layers s1)
                        (targetRef := setCell target (fst xy - layer_x target) (snd xy - layer_y target)
                                        (makeCell wangTile))\<rparr>;
                 adjacentPoints = getSurroundingPoints xy (mStaggeredRenderer filler)
             in (s2, fold (propagateTo (layers s2 targetRef) wangTile adjacentPoints) [0..<8] wangIds))"

definition fillRect_st :: "WangFiller \<Rightarrow> nat \<Rightarrow> QRect \<Rightarrow> CallState \<Rightarrow> CallState" where
  "fillRect_st filler targetRef rect st =
     fold (\<lambda>y. fold (\<lambda>x. fillCell_st filler targetRef (x, y)) [rect_left rect..rect_right rect])
       [rect_top rect..rect_bottom rect] st"

definition phaseB_st :: "WangFiller \<Rightarrow> nat \<Rightarrow> QRegion \<Rightarrow> CallState \<Rightarrow> CallState" where
  "phaseB_st filler targetRef region st = fold (fillRect_st filler targetRef) region st"

text \<open>
  The call: both phases run on the store, starting from the grid passed by value; when the
  call returns, its copy of the grid is gone and the store is what the caller is left with.
\<close>

definition fillRegion_st ::
  "WangFiller \<Rightarrow> nat \<Rightarrow> nat \<Rightarrow> Grid \<Rightarrow> QRegion \<Rightarrow> Store \<Rightarrow> Store" where
  "fillRegion_st filler targetRef backRef wangIds region s =
     fst (phaseB_st filler targetRef region (phaseA_st filler backRef region (s, wangIds)))"

section \<open>Example inputs\<close>

text \<open>
  A catalog of three tiles: tile 1 has colour 1 on all eight slots, tile 2 has colour 2
  on all eight, tile 3 has colour 1 on the slots N and NE and leaves the others free.
\<close>

definition example_wangSet :: WangSet where
  "example_wangSet =
     \<lparr>wangTilesByWangId =
        [\<lparr>tile = Some 1, wangId = 0x11111111\<rparr>,
         \<lparr>tile = Some 2, wangId = 0x22222222\<rparr>,
         \<lparr>tile = Some 3, wangId = 0x00000011\<rparr>],
      wangTileProbability = (\<lambda>t. 1),
      findMatchingWangTiles =
        (\<lambda>w. filter (\<lambda>t. wangId t = w)
           [\<lparr>tile = Some 1, wangId = 0x11111111\<rparr>,
            \<lparr>tile = Some 2, wangId = 0x22222222\<rparr>,
            \<lparr>tile = Some 3, wangId = 0x00000011\<rparr>]),
      isComplete = False,
      wildWangIdIsUsed = (\<lambda>w. False),
      wangIdOfCell = (\<lambda>c. case c of None \<Rightarrow> 0 | Some t \<Rightarrow> if t = 1 then 0x11111111 else 0x22222222),
      wangIdFromSurrounding = (\<lambda>cs. 0x11111111)\<rparr>"

text \<open>A staggered renderer with some diagonal-neighbour primitives, for either stagger axis.\<close>

definition example_renderer :: "StaggerAxis \<Rightarrow> StaggeredRenderer" where
  "example_renderer axis =
     \<lparr>topRight = (\<lambda>x y. (x + 1, y - 1)),
      bottomRight = (\<lambda>x y. (x + 1, y + 1)),
      bottomLeft = (\<lambda>x y. (x - 1, y + 1)),
      topLeft = (\<lambda>x y. (x - 1, y - 1)),
      staggerAxis = axis\<rparr>"

text \<open>A region of one rectangle, the four cells from \<open>(1, 1)\<close> to \<open>(2, 2)\<close>.\<close>

definition example_region :: QRegion where
  "example_region = [\<lparr>rect_left = 1, rect_top = 1, rect_right = 2, rect_bottom = 2\<rparr>]"

text \<open>The random source whose draws are all 0.\<close>

definition example_rng :: Rng where
  "example_rng = (\<lambda>n. 0)"

text \<open>The filler of the example catalog on an orthogonal map, and a layer with no tile.\<close>

definition example_filler :: WangFiller where
  "example_filler = \<lparr>mWangSet = example_wangSet, mStaggeredRenderer = None\<rparr>"

definition example_layer :: TileLayer where
  "example_layer = \<lparr>layer_x = 0, layer_y = 0, cells = (\<lambda>p. None)\<rparr>"

text \<open>
  The example filler with a catalog that says it is complete, and one whose catalog finds
  no matching tile.
\<close>

definition example_complete_filler :: WangFiller where
  "example_complete_filler = example_filler\<lparr>mWangSet := example_wangSet\<lparr>isComplete := True\<rparr>\<rparr>"

definition example_barren_filler :: WangFiller where
  "example_barren_filler = example_filler\<lparr>mWangSet := example_wangSet\<lparr>findMatchingWangTiles := (\<lambda>w. [])\<rparr>\<rparr>"

text \<open>
  A background layer showing tile 1 everywhere, a region of the single cell \<open>(1, 1)\<close>,
  and a store with the empty layer at reference 0, the background at the other references
  and empty grids.
\<close>

definition example_background :: TileLayer where
  "example_background = \<lparr>layer_x = 0, layer_y = 0, cells = (\<lambda>p. Some 1)\<rparr>"

definition example_cell :: QRegion where
  "example_cell = [\<lparr>rect_left = 1, rect_top = 1, rect_right = 1, rect_bottom = 1\<rparr>]"

definition example_store :: Store where
  "example_store =
     \<lparr>layers = (\<lambda>r. if r = 0 then example_layer else example_background),
      grids = (\<lambda>g. Map.empty),
      rand = example_rng\<rparr>"

section \<open>Properties of the neighbour topology and the view\<close>

lemma upt_8: "[0..<8] = [0, 1, 2, 3, 4, 5, 6, 7]"
  by (simp add: upt_rec)

lemma getSurroundingPoints_orthogonal:
  "getSurroundingPoints (px, py) None =
     [(px, py - 1), (px + 1, py - 1), (px + 1, py), (px + 1, py + 1),
      (px, py + 1), (px - 1, py + 1), (px - 1, py), (px - 1, py - 1)]"
  by (simp add: getSurroundingPoints_def upt_8 aroundTilePoints_def padd_def)

lemma length_getSurroundingPoints: "length (getSurroundingPoints p sr) = 8"
  by (cases p) (simp add: getSurroundingPoints_def Let_def split: option.splits)

text \<open>
  C7. For every point, \<open>getCell\<close> returns the cell of the in-progress front layer at that
  point (the point translated by the front layer's offset) when the point lies inside the
  fill region, and the cell of the background layer at that point otherwise.
\<close>

theorem getCell_dispatch:
  "(contains region (px, py) \<longrightarrow>
      getCell back front region (px, py) = cells front (px - layer_x front, py - layer_y front)) \<and>
   (\<not> contains region (px, py) \<longrightarrow>
      getCell back front region (px, py) = cells back (px, py))"
  by (simp add: getCell_def cellAt_def)

theorem getCell_dispatch_witness:
  "contains example_region (1, 1) \<and>
   getCell \<lparr>layer_x = 0, layer_y = 0, cells = (\<lambda>p. Some 2)\<rparr>
     \<lparr>layer_x = 1, layer_y = 1, cells = (\<lambda>p. if p = (0, 0) then Some 1 else None)\<rparr>
     example_region (1, 1) = Some 1 \<and>
   \<not> contains example_region (0, 0) \<and>
   getCell \<lparr>layer_x = 0, layer_y = 0, cells = (\<lambda>p. Some 2)\<rparr>
     \<lparr>layer_x = 1, layer_y = 1, cells = (\<lambda>p. if p = (0, 0) then Some 1 else None)\<rparr>
     example_region (0, 0) = Some 2"
  using
    getCell_dispatch [of example_region 1 1 "\<lparr>layer_x = 0, layer_y = 0, cells = (\<lambda>p. Some 2)\<rparr>"
      "\<lparr>layer_x = 1, layer_y = 1, cells = (\<lambda>p. if p = (0, 0) then Some 1 else None)\<rparr>"]
    getCell_dispatch [of example_region 0 0 "\<lparr>layer_x = 0, layer_y = 0, cells = (\<lambda>p. Some 2)\<rparr>"
      "\<lparr>layer_x = 1, layer_y = 1, cells = (\<lambda>p. if p = (0, 0) then Some 1 else None)\<rparr>"]
  by (simp add: example_region_def contains_def rect_contains_def)

text \<open>
  C8. With a staggered renderer, \<open>getSurroundingPoints\<close> computes the slots 0, 2, 4 and 6
  (N, E, S, W) with the renderer's \<open>topRight\<close>, \<open>bottomRight\<close>, \<open>bottomLeft\<close> and
  \<open>topLeft\<close>. For the slots 1, 3, 5 and 7: with stagger axis X the offsets are
  \<open>(+2, 0)\<close>, \<open>(0, +1)\<close>, \<open>(-2, 0)\<close>, \<open>(0, -1)\<close>, two steps horizontally and one
  vertically; with stagger axis Y they are \<open>(+1, 0)\<close>, \<open>(0, +2)\<close>, \<open>(-1, 0)\<close>,
  \<open>(0, -2)\<close>.
\<close>

theorem getSurroundingPoints_staggered:
  "(staggerAxis sr = StaggerX \<longrightarrow>
      getSurroundingPoints (px, py) (Some sr) =
        [topRight sr px py, (px + 2, py), bottomRight sr px py, (px, py + 1),
         bottomLeft sr px py, (px - 2, py), topLeft sr px py, (px, py - 1)]) \<and>
   (staggerAxis sr = StaggerY \<longrightarrow>
      getSurroundingPoints (px, py) (Some sr) =
        [topRight sr px py, (px + 1, py), bottomRight sr px py, (px, py + 2),
         bottomLeft sr px py, (px - 1, py), topLeft sr px py, (px, py - 2)])"
  by (simp add: getSurroundingPoints_def padd_def)

theorem getSurroundingPoints_staggered_witness:
  "staggerAxis (example_renderer StaggerX) = StaggerX \<and>
   getSurroundingPoints (4, 6) (Some (example_renderer StaggerX)) =
     [(5, 5), (6, 6), (5, 7), (4, 7), (3, 7), (2, 6), (3, 5), (4, 5)] \<and>
   staggerAxis (example_renderer StaggerY) = StaggerY \<and>
   getSurroundingPoints (4, 6) (Some (example_renderer StaggerY)) =
     [(5, 5), (5, 6), (5, 7), (4, 8), (3, 7), (3, 6), (3, 5), (4, 4)]"
  using getSurroundingPoints_staggered [of "example_renderer StaggerX" 4 6]
    getSurroundingPoints_staggered [of "example_renderer StaggerY" 4 6]
  by (simp add: example_renderer_def)

section \<open>Properties of the best-match search\<close>

lemma fold_count:
  "fold (\<lambda>i pen. if P i then pen + 1 else pen) xs (acc::int) = acc + int (length (filter P xs))"
  by (induction xs arbitrary: acc) simp_all

lemma length_filter_upt_card: "length (filter P [0..<n]) = card {i. i < n \<and> P i}"
proof -
  have "card {i. i < n \<and> P i} = card (set (filter P [0..<n]))"
    by (rule arg_cong[where f = card]) auto
  also have "\<dots> = length (filter P [0..<n])"
    by (rule distinct_card) simp
  finally show ?thesis by simp
qed

text \<open>The penalty the loop counts is the number of slots on which the two constraints differ.\<close>

lemma penalty_card:
  "penalty a b = int (card {i. i < 8 \<and> indexColor a i \<noteq> indexColor b i})"
  unfolding penalty_def NumIndexes_def fold_count length_filter_upt_card by simp

lemma penalty_le_8: "penalty a b \<le> 8"
proof -
  have "length (filter (\<lambda>i. indexColor a i \<noteq> indexColor b i) [0..<8]) \<le> length [0..<(8::nat)]"
    by (rule length_filter_le)
  then show ?thesis unfolding penalty_def NumIndexes_def fold_count by simp
qed

lemma loop_lowest:
  "findBestMatch_loop ws wid m mw ts (M, L) = (M', L') \<Longrightarrow>
     L' \<le> L \<and> (\<forall>c\<in>set ts. (wangId c AND m) = mw \<longrightarrow> L' \<le> penalty (wangId c) wid)"
proof (induction ts arbitrary: M L)
  case Nil
  then show ?case by simp
next
  case (Cons t ts)
  show ?case
  proof (cases "(wangId t AND m) \<noteq> mw")
    case True
    with Cons.prems have "findBestMatch_loop ws wid m mw ts (M, L) = (M', L')" by simp
    from Cons.IH[OF this] True show ?thesis by auto
  next
    case pass: False
    show ?thesis
    proof (cases "penalty (wangId t) wid \<le> L")
      case False
      with pass Cons.prems have "findBestMatch_loop ws wid m mw ts (M, L) = (M', L')" by simp
      from Cons.IH[OF this] False show ?thesis by auto
    next
      case le: True
      show ?thesis
      proof (cases "penalty (wangId t) wid < L")
        case True
        with pass le Cons.prems have
          "findBestMatch_loop ws wid m mw ts
             (rp_add rp_clear t (wangTileProbability ws t), penalty (wangId t) wid) = (M', L')"
          by simp
        from Cons.IH[OF this] True show ?thesis by auto
      next
        case False
        with pass le Cons.prems have
          "findBestMatch_loop ws wid m mw ts (rp_add M t (wangTileProbability ws t), L) = (M', L')"
          by simp
        from Cons.IH[OF this] False le show ?thesis by auto
      qed
    qed
  qed
qed

lemma loop_members:
  "findBestMatch_loop ws wid m mw ts (M, L) = (M', L') \<Longrightarrow> t \<in> fst ` set M' \<Longrightarrow>
     (t \<in> fst ` set M \<and> L' = L) \<or>
     (t \<in> set ts \<and> (wangId t AND m) = mw \<and> penalty (wangId t) wid = L')"
proof (induction ts arbitrary: M L)
  case Nil
  then show ?case by simp
next
  case (Cons x ts)
  show ?case
  proof (cases "(wangId x AND m) \<noteq> mw")
    case True
    with Cons.prems have "findBestMatch_loop ws wid m mw ts (M, L) = (M', L')" by simp
    from Cons.IH[OF this Cons.prems(2)] show ?thesis by auto
  next
    case pass: False
    show ?thesis
    proof (cases "penalty (wangId x) wid \<le> L")
      case False
      with pass Cons.prems have "findBestMatch_loop ws wid m mw ts (M, L) = (M', L')" by simp
      from Cons.IH[OF this Cons.prems(2)] show ?thesis by auto
    next
      case le: True
      show ?thesis
      proof (cases "penalty (wangId x) wid < L")
        case True
        with pass le Cons.prems have
          "findBestMatch_loop ws wid m mw ts
             (rp_add rp_clear x (wangTileProbability ws x), penalty (wangId x) wid) = (M', L')"
          by simp
        from Cons.IH[OF this Cons.prems(2)] pass show ?thesis
          by (auto simp: rp_add_def rp_clear_def)
      next
        case False
        with pass le Cons.prems have
          "findBestMatch_loop ws wid m mw ts (rp_add M x (wangTileProbability ws x), L) = (M', L')"
          by simp
        from Cons.IH[OF this Cons.prems(2)] pass False le show ?thesis
          by (auto simp: rp_add_def)
      qed
    qed
  qed
qed

lemma rp_pick_member: "rp \<noteq> [] \<Longrightarrow> fst (rp_pick rp rng) \<in> fst ` set rp"
  by (simp add: rp_pick_def draw_def)

lemma loop_nonempty:
  "M \<noteq> [] \<or> (\<exists>c\<in>set ts. (wangId c AND m) = mw \<and> penalty (wangId c) wid \<le> L) \<Longrightarrow>
     fst (findBestMatch_loop ws wid m mw ts (M, L)) \<noteq> []"
proof (induction ts arbitrary: M L)
  case Nil
  then show ?case by simp
next
  case (Cons x ts)
  show ?case
  proof (cases "(wangId x AND m) \<noteq> mw")
    case True
    with Cons.prems have "M \<noteq> [] \<or> (\<exists>c\<in>set ts. (wangId c AND m) = mw \<and> penalty (wangId c) wid \<le> L)"
      by auto
    from Cons.IH[OF this] True show ?thesis by simp
  next
    case pass: False
    show ?thesis
    proof (cases "penalty (wangId x) wid \<le> L")
      case False
      with Cons.prems have "M \<noteq> [] \<or> (\<exists>c\<in>set ts. (wangId c AND m) = mw \<and> penalty (wangId c) wid \<le> L)"
        by auto
      from Cons.IH[OF this] pass False show ?thesis by simp
    next
      case le: True
      show ?thesis
      proof (cases "penalty (wangId x) wid < L")
        case True
        have "rp_add rp_clear x (wangTileProbability ws x) \<noteq> []"
          by (simp add: rp_add_def)
        then have "fst (findBestMatch_loop ws wid m mw ts
             (rp_add rp_clear x (wangTileProbability ws x), penalty (wangId x) wid)) \<noteq> []"
          using Cons.IH by blast
        with pass le True show ?thesis by simp
      next
        case False
        have "rp_add M x (wangTileProbability ws x) \<noteq> []"
          by (simp add: rp_add_def)
        then have "fst (findBestMatch_loop ws wid m mw ts (rp_add M x (wangTileProbability ws x), L)) \<noteq> []"
          using Cons.IH by blast
        with pass le False show ?thesis by simp
      qed
    qed
  qed
qed

lemma loop_empty:
  "\<forall>c\<in>set ts. (wangId c AND m) \<noteq> mw \<Longrightarrow> findBestMatch_loop ws wid m mw ts (M, L) = (M, L)"
  by (induction ts) simp_all

lemma findBestMatch_cases:
  obtains M L where
    "findBestMatch_loop ws wid (wangId_mask wid) (wid AND wangId_mask wid) (wangTilesByWangId ws) (rp_clear, INT_MAX) = (M, L)"
    "findBestMatch ws wid rng = (if M \<noteq> [] then rp_pick M rng else (WangTile_default, rng))"
proof -
  obtain M L where ml: "findBestMatch_loop ws wid (wangId_mask wid) (wid AND wangId_mask wid) (wangTilesByWangId ws) (rp_clear, INT_MAX) = (M, L)"
    by (cases "findBestMatch_loop ws wid (wangId_mask wid) (wid AND wangId_mask wid) (wangTilesByWangId ws) (rp_clear, INT_MAX)")
  then have "findBestMatch ws wid rng = (if M \<noteq> [] then rp_pick M rng else (WangTile_default, rng))"
    by (simp add: findBestMatch_def Let_def rp_isEmpty_def)
  with ml show thesis by (rule that)
qed

text \<open>
  C1. Any tile \<open>findBestMatch\<close> returns is a tile of the catalog that agrees with the input
  on the input's mask, \<open>(candidate AND inputMask) = (input AND inputMask)\<close>, and the number
  of the 8 slots on which its colour differs from the input's (slots outside the input's
  mask counted as well) is the least among all tiles of the catalog that satisfy that mask
  equation.
\<close>

theorem findBestMatch_minimal:
  assumes returned: "findBestMatch wangSet wid rng = (t, rng')" and hasTile: "tile t \<noteq> None"
  shows "t \<in> set (wangTilesByWangId wangSet) \<and>
         (wangId t AND wangId_mask wid) = (wid AND wangId_mask wid) \<and>
         (\<forall>c \<in> set (wangTilesByWangId wangSet).
            (wangId c AND wangId_mask wid) = (wid AND wangId_mask wid) \<longrightarrow>
              card {i. i < 8 \<and> indexColor (wangId t) i \<noteq> indexColor wid i}
                \<le> card {i. i < 8 \<and> indexColor (wangId c) i \<noteq> indexColor wid i})"
proof -
  obtain M L where
    loop: "findBestMatch_loop wangSet wid (wangId_mask wid) (wid AND wangId_mask wid)
             (wangTilesByWangId wangSet) (rp_clear, INT_MAX) = (M, L)" and
    res: "findBestMatch wangSet wid rng = (if M \<noteq> [] then rp_pick M rng else (WangTile_default, rng))"
    by (rule findBestMatch_cases)
  have ne: "M \<noteq> []"
  proof
    assume "M = []"
    with res returned have "t = WangTile_default" by simp
    with hasTile show False by (simp add: WangTile_default_def)
  qed
  with res returned have "rp_pick M rng = (t, rng')" by simp
  then have "t = fst (rp_pick M rng)" by simp
  with ne have "t \<in> fst ` set M" by (simp add: rp_pick_member)
  from loop_members[OF loop this]
  have t: "t \<in> set (wangTilesByWangId wangSet)"
    "(wangId t AND wangId_mask wid) = (wid AND wangId_mask wid)"
    "penalty (wangId t) wid = L"
    by (auto simp: rp_clear_def)
  have "\<forall>c\<in>set (wangTilesByWangId wangSet).
          (wangId c AND wangId_mask wid) = (wid AND wangId_mask wid) \<longrightarrow>
            penalty (wangId t) wid \<le> penalty (wangId c) wid"
    using loop_lowest[OF loop] t(3) by simp
  then have "\<forall>c\<in>set (wangTilesByWangId wangSet).
          (wangId c AND wangId_mask wid) = (wid AND wangId_mask wid) \<longrightarrow>
            card {i. i < 8 \<and> indexColor (wangId t) i \<noteq> indexColor wid i}
              \<le> card {i. i < 8 \<and> indexColor (wangId c) i \<noteq> indexColor wid i}"
    by (simp add: penalty_card)
  with t(1,2) show ?thesis by blast
qed

lemma example_findBestMatch:
  "findBestMatch example_wangSet 1 example_rng = (\<lparr>tile = Some 3, wangId = 0x11\<rparr>, example_rng)"
  by (simp add: findBestMatch_def example_wangSet_def wangId_mask_def penalty_def NumIndexes_def
      upt_8 indexColor_def INT_MAX_def rp_add_def rp_clear_def rp_isEmpty_def rp_pick_def draw_def
      example_rng_def)

theorem findBestMatch_minimal_witness:
  "findBestMatch example_wangSet 1 example_rng = (\<lparr>tile = Some 3, wangId = 0x11\<rparr>, example_rng) \<and>
   tile \<lparr>tile = Some 3, wangId = 0x11\<rparr> \<noteq> None \<and>
   \<lparr>tile = Some 3, wangId = 0x11\<rparr> \<in> set (wangTilesByWangId example_wangSet) \<and>
   (0x11 AND wangId_mask 1) = (1 AND wangId_mask 1) \<and>
   card {i. i < 8 \<and> indexColor 0x11 i \<noteq> indexColor 1 i}
     \<le> card {i. i < 8 \<and> indexColor 0x11111111 i \<noteq> indexColor 1 i}"
proof -
  have h2: "tile \<lparr>tile = Some 3, wangId = 0x11\<rparr> \<noteq> None" by simp
  have c: "\<lparr>tile = Some 1, wangId = 0x11111111\<rparr> \<in> set (wangTilesByWangId example_wangSet)"
    by (simp add: example_wangSet_def)
  have p: "(0x11111111 AND wangId_mask 1) = (1 AND wangId_mask 1)"
    by (simp add: wangId_mask_def NumIndexes_def upt_8 indexColor_def)
  from findBestMatch_minimal [OF example_findBestMatch h2] c p example_findBestMatch
  show ?thesis by auto
qed

section \<open>Properties of the second phase\<close>

text \<open>
  The second phase visits the cells of the region one after the other, in the order of
  \<open>regionPoints\<close>: it is the fold of \<open>fillCell\<close> over that list.
\<close>

lemma fold_concat_map: "fold f (concat (map g xs)) st = fold (\<lambda>x. fold f (g x)) xs st"
  by (induction xs arbitrary: st) simp_all

lemma fillRect_fold: "fillRect filler rect st = fold (fillCell filler) (rectPoints rect) st"
  by (simp add: fillRect_def rectPoints_def fold_concat_map fold_map comp_def)

lemma phaseB_fold: "phaseB filler region st = fold (fillCell filler) (regionPoints region) st"
proof -
  have "fillRect filler = (\<lambda>rect. fold (fillCell filler) (rectPoints rect))"
    by (rule ext)+ (simp add: fillRect_fold)
  then show ?thesis
    by (simp add: phaseB_def regionPoints_def fold_concat_map)
qed

lemma findBestMatch_none_iff:
  assumes wellformed: "\<forall>c\<in>set (wangTilesByWangId ws). tile c \<noteq> None"
  shows "tile (fst (findBestMatch ws wid rng)) = None \<longleftrightarrow>
         (\<forall>c\<in>set (wangTilesByWangId ws). (wangId c AND wangId_mask wid) \<noteq> (wid AND wangId_mask wid))"
proof -
  obtain M L where
    loop: "findBestMatch_loop ws wid (wangId_mask wid) (wid AND wangId_mask wid)
             (wangTilesByWangId ws) (rp_clear, INT_MAX) = (M, L)" and
    res: "findBestMatch ws wid rng = (if M \<noteq> [] then rp_pick M rng else (WangTile_default, rng))"
    by (rule findBestMatch_cases)
  show ?thesis
  proof
    assume none: "tile (fst (findBestMatch ws wid rng)) = None"
    have "M = []"
    proof (rule ccontr)
      assume ne: "M \<noteq> []"
      then have "fst (rp_pick M rng) \<in> fst ` set M" by (rule rp_pick_member)
      from loop_members[OF loop this]
      have "fst (rp_pick M rng) \<in> set (wangTilesByWangId ws)" by (auto simp: rp_clear_def)
      with wellformed have "tile (fst (rp_pick M rng)) \<noteq> None" by blast
      with none res ne show False by simp
    qed
    show "\<forall>c\<in>set (wangTilesByWangId ws). (wangId c AND wangId_mask wid) \<noteq> (wid AND wangId_mask wid)"
    proof (rule ccontr)
      assume "\<not> ?thesis"
      then obtain c where "c \<in> set (wangTilesByWangId ws)"
        "(wangId c AND wangId_mask wid) = (wid AND wangId_mask wid)" by blast
      moreover have "penalty (wangId c) wid \<le> INT_MAX"
        using penalty_le_8[of "wangId c" wid] by (simp add: INT_MAX_def)
      ultimately have "fst (findBestMatch_loop ws wid (wangId_mask wid) (wid AND wangId_mask wid)
             (wangTilesByWangId ws) (rp_clear, INT_MAX)) \<noteq> []"
        by (intro loop_nonempty) blast
      with loop \<open>M = []\<close> show False by simp
    qed
  next
    assume "\<forall>c\<in>set (wangTilesByWangId ws). (wangId c AND wangId_mask wid) \<noteq> (wid AND wangId_mask wid)"
    from loop_empty[OF this] loop have "M = []" by (simp add: rp_clear_def)
    with res show "tile (fst (findBestMatch ws wid rng)) = None"
      by (simp add: WangTile_default_def)
  qed
qed

lemma fillCell_no_tile:
  "tile (fst (findBestMatch (mWangSet filler) (grid_get wangIds xy) rng)) = None \<Longrightarrow>
     fillCell filler xy (target, wangIds, rng) =
       (target, wangIds, snd (findBestMatch (mWangSet filler) (grid_get wangIds xy) rng))"
  by (simp add: fillCell_def Let_def)

text \<open>
  C4. In the second phase, \<open>findBestMatch\<close> yields no tile exactly when the catalog is
  empty or no tile of it passes the filter on the input's mask (the tiles of a catalog all
  refer to a tile). The cell is then left unplaced: the iteration changes neither the
  target layer nor the grid of constraints, and the fill goes on with the cells that
  remain.
\<close>

theorem fillCell_unplaced:
  assumes wellformed: "\<forall>c\<in>set (wangTilesByWangId (mWangSet filler)). tile c \<noteq> None"
  shows "(tile (fst (findBestMatch (mWangSet filler) wid rng)) = None \<longleftrightarrow>
            (wangTilesByWangId (mWangSet filler) = [] \<or>
             (\<forall>c\<in>set (wangTilesByWangId (mWangSet filler)).
                (wangId c AND wangId_mask wid) \<noteq> (wid AND wangId_mask wid)))) \<and>
         (tile (fst (findBestMatch (mWangSet filler) (grid_get wangIds xy) rng)) = None \<longrightarrow>
            fillCell filler xy (target, wangIds, rng) = (target, wangIds, rng) \<and>
            fold (fillCell filler) (xy # rest) (target, wangIds, rng) =
              fold (fillCell filler) rest (target, wangIds, rng))"
proof -
  have a: "tile (fst (findBestMatch (mWangSet filler) wid rng)) = None \<longleftrightarrow>
            (wangTilesByWangId (mWangSet filler) = [] \<or>
             (\<forall>c\<in>set (wangTilesByWangId (mWangSet filler)).
                (wangId c AND wangId_mask wid) \<noteq> (wid AND wangId_mask wid)))"
    using findBestMatch_none_iff[OF wellformed, of wid rng] by auto
  have b: "fillCell filler xy (target, wangIds, rng) = (target, wangIds, rng)"
    if none: "tile (fst (findBestMatch (mWangSet filler) (grid_get wangIds xy) rng)) = None"
  proof -
    obtain M L where
      res: "findBestMatch (mWangSet filler) (grid_get wangIds xy) rng =
              (if M \<noteq> [] then rp_pick M rng else (WangTile_default, rng))" and
      loop: "findBestMatch_loop (mWangSet filler) (grid_get wangIds xy) (wangId_mask (grid_get wangIds xy))
               (grid_get wangIds xy AND wangId_mask (grid_get wangIds xy))
               (wangTilesByWangId (mWangSet filler)) (rp_clear, INT_MAX) = (M, L)"
      by (rule findBestMatch_cases)
    have "M = []"
    proof (rule ccontr)
      assume ne: "M \<noteq> []"
      then have "fst (rp_pick M rng) \<in> fst ` set M" by (rule rp_pick_member)
      from loop_members[OF loop this]
      have "fst (rp_pick M rng) \<in> set (wangTilesByWangId (mWangSet filler))"
        by (auto simp: rp_clear_def)
      with wellformed have "tile (fst (rp_pick M rng)) \<noteq> None" by blast
      with none res ne show False by simp
    qed
    with res have "snd (findBestMatch (mWangSet filler) (grid_get wangIds xy) rng) = rng" by simp
    with fillCell_no_tile[OF none] show ?thesis by simp
  qed
  from a b show ?thesis by simp
qed

theorem fillCell_unplaced_witness:
  "tile (fst (findBestMatch (mWangSet example_filler) 3 example_rng)) = None \<and>
   wangTilesByWangId (mWangSet example_filler) \<noteq> [] \<and>
   (0x11111111 AND wangId_mask 3) \<noteq> (3 AND wangId_mask 3) \<and>
   grid_get [(1, 1) \<mapsto> 3] (1, 1) = 3 \<and>
   fillCell example_filler (1, 1) (example_layer, [(1, 1) \<mapsto> 3], example_rng) =
     (example_layer, [(1, 1) \<mapsto> 3], example_rng) \<and>
   fold (fillCell example_filler) [(1, 1), (2, 1)] (example_layer, [(1, 1) \<mapsto> 3], example_rng) =
     fold (fillCell example_filler) [(2, 1)] (example_layer, [(1, 1) \<mapsto> 3], example_rng)"
proof -
  have wellformed: "\<forall>c\<in>set (wangTilesByWangId (mWangSet example_filler)). tile c \<noteq> None"
    by (simp add: example_filler_def example_wangSet_def)
  have m: "wangId_mask 3 = 0xf"
    by (simp add: wangId_mask_def NumIndexes_def upt_8 indexColor_def)
  have nopass: "\<forall>c\<in>set (wangTilesByWangId (mWangSet example_filler)).
      (wangId c AND wangId_mask 3) \<noteq> (3 AND wangId_mask 3)"
    by (simp add: example_filler_def example_wangSet_def m)
  have g: "grid_get [(1, 1) \<mapsto> 3] (1, 1) = 3"
    by (simp add: grid_get_def)
  from fillCell_unplaced [OF wellformed, of 3 example_rng "[(1, 1) \<mapsto> 3]" "(1, 1)" example_layer "[(2, 1)]"]
    nopass g
  show ?thesis by (simp add: example_filler_def example_wangSet_def m)
qed

lemma propagateTo_changes:
  "propagateTo target t pts i g q \<noteq> g q \<Longrightarrow> q = pts ! i \<and> \<not> occupied target q"
  by (auto simp: propagateTo_def occupied_def Let_def grid_set_def split: if_splits)

lemma fold_propagateTo_changes:
  "fold (propagateTo target t pts) idxs g q \<noteq> g q \<Longrightarrow>
     (\<exists>i\<in>set idxs. q = pts ! i) \<and> \<not> occupied target q"
proof (induction idxs arbitrary: g)
  case Nil
  then show ?case by simp
next
  case (Cons i idxs)
  show ?case
  proof (cases "fold (propagateTo target t pts) idxs (propagateTo target t pts i g) q = propagateTo target t pts i g q")
    case True
    with Cons.prems have "propagateTo target t pts i g q \<noteq> g q" by simp
    from propagateTo_changes[OF this] show ?thesis by auto
  next
    case False
    from Cons.IH[OF this] show ?thesis by auto
  qed
qed

lemma propagate_changes:
  "propagate target t pts g q \<noteq> g q \<Longrightarrow> q \<in> set pts \<and> \<not> occupied target q" if "length pts = 8"
proof -
  assume "propagate target t pts g q \<noteq> g q"
  then have "(\<exists>i\<in>set [0..<8]. q = pts ! i) \<and> \<not> occupied target q"
    unfolding propagate_def by (rule fold_propagateTo_changes)
  with that show ?thesis by auto
qed

lemma occupied_setCell:
  "occupied (setCell target (fst xy - layer_x target) (snd xy - layer_y target) c) q \<longleftrightarrow>
     (if q = xy then c \<noteq> None else occupied target q)"
  by (cases q; cases xy) (auto simp: occupied_def setCell_def cellAt_def psub_def position_def isEmpty_def)

lemma fillCell_result:
  obtains (unplaced) rng' where "tile (fst (findBestMatch (mWangSet filler) (grid_get g xy) rng)) = None"
      "fillCell filler xy (target, g, rng) = (target, g, rng')"
  | (placed) t rng' target' where  "findBestMatch (mWangSet filler) (grid_get g xy) rng = (t, rng')" "tile t \<noteq> None"
      "target' = setCell target (fst xy - layer_x target) (snd xy - layer_y target) (makeCell t)"
      "fillCell filler xy (target, g, rng) =
         (target', propagate target' t (getSurroundingPoints xy (mStaggeredRenderer filler)) g, rng')"
proof (cases "tile (fst (findBestMatch (mWangSet filler) (grid_get g xy) rng)) = None")
  case True
  then show ?thesis by (intro unplaced[of "snd (findBestMatch (mWangSet filler) (grid_get g xy) rng)"]) (simp_all add: fillCell_def Let_def)
next
  case False
  show ?thesis
  proof (rule placed)
    show "findBestMatch (mWangSet filler) (grid_get g xy) rng =
            (fst (findBestMatch (mWangSet filler) (grid_get g xy) rng),
             snd (findBestMatch (mWangSet filler) (grid_get g xy) rng))"
      by simp
    show "tile (fst (findBestMatch (mWangSet filler) (grid_get g xy) rng)) \<noteq> None"
      by (rule False)
    show "setCell target (fst xy - layer_x target) (snd xy - layer_y target)
            (makeCell (fst (findBestMatch (mWangSet filler) (grid_get g xy) rng))) =
          setCell target (fst xy - layer_x target) (snd xy - layer_y target)
            (makeCell (fst (findBestMatch (mWangSet filler) (grid_get g xy) rng)))"
      by (rule refl)
    from False show "fillCell filler xy (target, g, rng) =
       (setCell target (fst xy - layer_x target) (snd xy - layer_y target)
            (makeCell (fst (findBestMatch (mWangSet filler) (grid_get g xy) rng))),
        propagate (setCell target (fst xy - layer_x target) (snd xy - layer_y target)
            (makeCell (fst (findBestMatch (mWangSet filler) (grid_get g xy) rng))))
          (fst (findBestMatch (mWangSet filler) (grid_get g xy) rng))
          (getSurroundingPoints xy (mStaggeredRenderer filler)) g,
        snd (findBestMatch (mWangSet filler) (grid_get g xy) rng))"
      unfolding fillCell_def Let_def by (simp del: not_None_eq)
  qed
qed

lemma fillCell_occupied:
  assumes "fillCell filler xy (target, g, rng) = (target1, g1, rng1)" and "occupied target q"
  shows "occupied target1 q \<and> g1 q = g q"
proof (cases rule: fillCell_result[of filler g xy rng target])
  case (unplaced rng')
  with assms show ?thesis by simp
next
  case (placed t rng' target')
  from placed(2) have c: "makeCell t \<noteq> None" by (simp add: makeCell_def)
  from placed(3) assms(2) c have occ: "occupied target' q"
    by (simp add: occupied_setCell)
  have "propagate target' t (getSurroundingPoints xy (mStaggeredRenderer filler)) g q = g q"
    using propagate_changes[OF length_getSurroundingPoints, of target' t xy "mStaggeredRenderer filler" g q] occ
    by blast
  with placed(4) assms(1) occ show ?thesis by simp
qed

lemma fold_fillCell_occupied:
  "fold (fillCell filler) pts (target, g, rng) = (target2, g2, rng2) \<Longrightarrow> occupied target q \<Longrightarrow>
     occupied target2 q \<and> g2 q = g q"
proof (induction pts arbitrary: target g rng)
  case Nil
  then show ?case by simp
next
  case (Cons xy pts)
  obtain target1 g1 rng1 where step: "fillCell filler xy (target, g, rng) = (target1, g1, rng1)"
    by (cases "fillCell filler xy (target, g, rng)")
  from fillCell_occupied[OF step Cons.prems(2)] have occ1: "occupied target1 q" and g1: "g1 q = g q"
    by simp_all
  from Cons.prems(1) step have "fold (fillCell filler) pts (target1, g1, rng1) = (target2, g2, rng2)"
    by simp
  from Cons.IH[OF this occ1] g1 show ?case by simp
qed

lemma propagateTo_Some: "g q \<noteq> None \<Longrightarrow> propagateTo target t pts i g q \<noteq> None"
  by (simp add: propagateTo_def Let_def grid_set_def)

lemma fold_propagateTo_Some: "g q \<noteq> None \<Longrightarrow> fold (propagateTo target t pts) idxs g q \<noteq> None"
proof (induction idxs arbitrary: g)
  case Nil
  then show ?case by simp
next
  case (Cons j idxs)
  from Cons.prems have "propagateTo target t pts j g q \<noteq> None" by (rule propagateTo_Some)
  then have "fold (propagateTo target t pts) idxs (propagateTo target t pts j g) q \<noteq> None"
    by (rule Cons.IH)
  then show ?case by simp
qed

lemma propagateTo_here:
  "\<not> occupied target (pts ! i) \<Longrightarrow>
     propagateTo target t pts i g (pts ! i) =
       Some (updateToAdjacent (grid_get g (pts ! i)) (wangId t) (oppositeIndex i))"
  by (simp add: propagateTo_def Let_def grid_set_def occupied_def)

lemma fold_propagateTo_dom:
  "i \<in> set idxs \<Longrightarrow> \<not> occupied target (pts ! i) \<Longrightarrow>
     fold (propagateTo target t pts) idxs g (pts ! i) \<noteq> None"
proof (induction idxs arbitrary: g)
  case Nil
  then show ?case by simp
next
  case (Cons j idxs)
  show ?case
  proof (cases "i = j")
    case True
    have "propagateTo target t pts j g (pts ! i) \<noteq> None"
      using propagateTo_here[OF Cons.prems(2), of t g] True by simp
    then show ?thesis by (simp add: fold_propagateTo_Some)
  next
    case False
    with Cons.prems have "i \<in> set idxs" by simp
    from Cons.IH[OF this Cons.prems(2)] show ?thesis by simp
  qed
qed

lemma fold_propagateTo_value:
  "distinct (map (\<lambda>k. pts ! k) idxs) \<Longrightarrow> i \<in> set idxs \<Longrightarrow> \<not> occupied target (pts ! i) \<Longrightarrow>
     fold (propagateTo target t pts) idxs g (pts ! i) =
       Some (updateToAdjacent (grid_get g (pts ! i)) (wangId t) (oppositeIndex i))"
proof (induction idxs arbitrary: g)
  case Nil
  then show ?case by simp
next
  case (Cons j idxs)
  from Cons.prems(1) have fresh: "pts ! j \<notin> (\<lambda>k. pts ! k) ` set idxs"
    and dist: "distinct (map (\<lambda>k. pts ! k) idxs)" by simp_all
  show ?case
  proof (cases "i = j")
    case True
    have "fold (propagateTo target t pts) idxs (propagateTo target t pts j g) (pts ! j) =
            propagateTo target t pts j g (pts ! j)"
      using fold_propagateTo_changes[of target t pts idxs "propagateTo target t pts j g" "pts ! j"] fresh
      by blast
    with propagateTo_here[OF Cons.prems(3), of t g] True show ?thesis by simp
  next
    case False
    with Cons.prems have mem: "i \<in> set idxs" by simp
    then have "pts ! i \<in> (\<lambda>k. pts ! k) ` set idxs" by (rule imageI)
    with fresh have "pts ! i \<noteq> pts ! j" by metis
    then have "propagateTo target t pts j g (pts ! i) = g (pts ! i)"
      using propagateTo_changes[of target t pts j g "pts ! i"] by blast
    then have "grid_get (propagateTo target t pts j g) (pts ! i) = grid_get g (pts ! i)"
      by (simp add: grid_get_def)
    with Cons.IH[OF dist mem Cons.prems(3), of "propagateTo target t pts j g"] show ?thesis by simp
  qed
qed

lemma example_findBestMatch1:
  "findBestMatch (mWangSet example_filler) (grid_get [(1, 1) \<mapsto> 1] (1, 1)) example_rng =
     (\<lparr>tile = Some 3, wangId = 0x11\<rparr>, example_rng)"
  using example_findBestMatch by (simp add: example_filler_def grid_get_def)

lemma example_fillCell:
  "fillCell example_filler (1, 1) (example_layer, [(1, 1) \<mapsto> 1], example_rng) =
     (setCell example_layer 1 1 (Some 3),
      propagate (setCell example_layer 1 1 (Some 3)) \<lparr>tile = Some 3, wangId = 0x11\<rparr>
        (getSurroundingPoints (1, 1) None) [(1, 1) \<mapsto> 1],
      example_rng)"
  by (simp add: fillCell_def example_findBestMatch1 makeCell_def)
     (simp add: example_filler_def example_layer_def Let_def)

lemma example_target1_cells:
  "cellAt (setCell example_layer 1 1 (Some 3)) (psub q (position (setCell example_layer 1 1 (Some 3)))) =
     (if q = (1, 1) then Some 3 else None)"
  by (cases q) (simp add: setCell_def example_layer_def cellAt_def psub_def position_def)

text \<open>
  C3. Throughout the second phase, once a tile has been written to the target layer at a
  coordinate, no iteration modifies the entry of the grid of constraints at that
  coordinate: not the iteration that places the tile, and none of the later ones, however
  many of them have run. A placement changes only entries of the 8 adjacent points whose
  cell in the target layer is still empty.
\<close>

theorem fillCell_forward_only:
  assumes placed: "tile (fst (findBestMatch (mWangSet filler) (grid_get wangIds xy) rng)) \<noteq> None"
    and step: "fillCell filler xy (target, wangIds, rng) = (target1, wangIds1, rng1)"
    and later: "fold (fillCell filler) later (target1, wangIds1, rng1) = (target2, wangIds2, rng2)"
  shows "\<not> isEmpty (cellAt target1 (psub xy (position target1))) \<and>
         wangIds1 xy = wangIds xy \<and> wangIds2 xy = wangIds xy \<and>
         (\<forall>q. wangIds1 q \<noteq> wangIds q \<longrightarrow>
            q \<in> set (getSurroundingPoints xy (mStaggeredRenderer filler)) \<and>
            isEmpty (cellAt target1 (psub q (position target1))))"
proof (cases rule: fillCell_result[of filler wangIds xy rng target])
  case (unplaced rng')
  with placed show ?thesis by simp
next
  case (placed t rng' target')
  from placed(2) have c: "makeCell t \<noteq> None" by (simp add: makeCell_def)
  from placed(4) step have t1: "target1 = target'"
    and g1: "wangIds1 = propagate target' t (getSurroundingPoints xy (mStaggeredRenderer filler)) wangIds"
    by simp_all
  from placed(3) c have occ: "occupied target1 xy"
    by (simp add: t1 occupied_setCell)
  have ch: "q \<in> set (getSurroundingPoints xy (mStaggeredRenderer filler)) \<and> \<not> occupied target1 q"
    if "wangIds1 q \<noteq> wangIds q" for q
    using propagate_changes[OF length_getSurroundingPoints, of target' t xy "mStaggeredRenderer filler" wangIds q] that
    by (simp add: g1 t1)
  from ch[of xy] occ have same1: "wangIds1 xy = wangIds xy" by blast
  from fold_fillCell_occupied[OF later occ] same1 have same2: "wangIds2 xy = wangIds xy" by simp
  from occ same1 same2 ch show ?thesis by (auto simp: occupied_def)
qed

theorem fillCell_forward_only_witness:
  "tile (fst (findBestMatch (mWangSet example_filler) (grid_get [(1, 1) \<mapsto> 1] (1, 1)) example_rng)) \<noteq> None \<and>
   \<not> isEmpty (cellAt (fst (fillCell example_filler (1, 1) (example_layer, [(1, 1) \<mapsto> 1], example_rng)))
        (psub (1, 1) (position (fst (fillCell example_filler (1, 1) (example_layer, [(1, 1) \<mapsto> 1], example_rng)))))) \<and>
   fst (snd (fillCell example_filler (1, 1) (example_layer, [(1, 1) \<mapsto> 1], example_rng))) (1, 1) = Some 1 \<and>
   fst (snd (fold (fillCell example_filler) [(2, 1), (1, 2), (2, 2)]
     (fillCell example_filler (1, 1) (example_layer, [(1, 1) \<mapsto> 1], example_rng)))) (1, 1) = Some 1"
proof -
  let ?st1 = "fillCell example_filler (1, 1) (example_layer, [(1, 1) \<mapsto> 1], example_rng)"
  let ?st2 = "fold (fillCell example_filler) [(2, 1), (1, 2), (2, 2)] ?st1"
  have placed: "tile (fst (findBestMatch (mWangSet example_filler) (grid_get [(1, 1) \<mapsto> 1] (1, 1)) example_rng)) \<noteq> None"
    by (simp add: example_findBestMatch1)
  have step: "?st1 = (fst ?st1, fst (snd ?st1), snd (snd ?st1))" by simp
  have later: "fold (fillCell example_filler) [(2, 1), (1, 2), (2, 2)] (fst ?st1, fst (snd ?st1), snd (snd ?st1)) =
     (fst ?st2, fst (snd ?st2), snd (snd ?st2))" by simp
  from fillCell_forward_only [OF placed step later] placed show ?thesis by simp
qed

text \<open>
  C10. After a placement, the entry of the grid of constraints of every one of the 8
  adjacent points whose cell in the target layer is empty is written, whether or not the
  point lies in the region being filled (the iteration does not look at the region): the
  entry exists afterwards, and where the 8 adjacent points are distinct, as on an
  orthogonal map, it is the former entry updated with the colour of the placed tile.
\<close>

theorem fillCell_propagates_everywhere:
  assumes placed: "tile (fst (findBestMatch (mWangSet filler) (grid_get wangIds xy) rng)) \<noteq> None"
    and step: "fillCell filler xy (target, wangIds, rng) = (target1, wangIds1, rng1)"
    and i: "i < 8"
    and q: "q = getSurroundingPoints xy (mStaggeredRenderer filler) ! i"
    and empty: "isEmpty (cellAt target1 (psub q (position target1)))"
  shows "wangIds1 q \<noteq> None \<and>
         (distinct (getSurroundingPoints xy (mStaggeredRenderer filler)) \<longrightarrow>
            wangIds1 q =
              Some (updateToAdjacent (grid_get wangIds q)
                      (wangId (fst (findBestMatch (mWangSet filler) (grid_get wangIds xy) rng)))
                      (oppositeIndex i)))"
proof (cases rule: fillCell_result[of filler wangIds xy rng target])
  case (unplaced rng')
  with placed show ?thesis by simp
next
  case (placed t rng' target')
  let ?pts = "getSurroundingPoints xy (mStaggeredRenderer filler)"
  from placed(4) step have t1: "target1 = target'"
    and g1: "wangIds1 = fold (propagateTo target' t ?pts) [0..<8] wangIds"
    by (simp_all add: propagate_def)
  from placed(1) have t: "fst (findBestMatch (mWangSet filler) (grid_get wangIds xy) rng) = t"
    by simp
  from empty q t1 have free: "\<not> occupied target' (?pts ! i)"
    by (simp add: occupied_def)
  from i have mem: "i \<in> set [0..<8]" by simp
  have a: "wangIds1 q \<noteq> None"
    unfolding g1 q by (rule fold_propagateTo_dom[OF mem free])
  have b: "wangIds1 q = Some (updateToAdjacent (grid_get wangIds q) (wangId t) (oppositeIndex i))"
    if d: "distinct ?pts"
  proof -
    have "map (\<lambda>k. ?pts ! k) [0..<length ?pts] = ?pts" by (rule map_nth)
    with d have "distinct (map (\<lambda>k. ?pts ! k) [0..<8])"
      by (simp add: length_getSurroundingPoints)
    from fold_propagateTo_value[OF this mem free] show ?thesis
      unfolding g1 q .
  qed
  from a b t show ?thesis by simp
qed

theorem fillCell_propagates_everywhere_witness:
  "tile (fst (findBestMatch (mWangSet example_filler) (grid_get [(1, 1) \<mapsto> 1] (1, 1)) example_rng)) \<noteq> None \<and>
   (1, 0) = getSurroundingPoints (1, 1) (mStaggeredRenderer example_filler) ! 0 \<and>
   \<not> contains example_region (1, 0) \<and>
   ([(1, 1) \<mapsto> 1] :: Grid) (1, 0) = None \<and>
   isEmpty (cellAt (fst (fillCell example_filler (1, 1) (example_layer, [(1, 1) \<mapsto> 1], example_rng)))
        (psub (1, 0) (position (fst (fillCell example_filler (1, 1) (example_layer, [(1, 1) \<mapsto> 1], example_rng)))))) \<and>
   distinct (getSurroundingPoints (1, 1) (mStaggeredRenderer example_filler)) \<and>
   fst (snd (fillCell example_filler (1, 1) (example_layer, [(1, 1) \<mapsto> 1], example_rng))) (1, 0) = Some 0x10000"
proof -
  let ?st1 = "fillCell example_filler (1, 1) (example_layer, [(1, 1) \<mapsto> 1], example_rng)"
  have placed: "tile (fst (findBestMatch (mWangSet example_filler) (grid_get [(1, 1) \<mapsto> 1] (1, 1)) example_rng)) \<noteq> None"
    by (simp add: example_findBestMatch1)
  have step: "?st1 = (fst ?st1, fst (snd ?st1), snd (snd ?st1))" by simp
  have i: "(0::nat) < 8" by simp
  have q: "(1, 0) = getSurroundingPoints (1, 1) (mStaggeredRenderer example_filler) ! 0"
    by (simp add: example_filler_def getSurroundingPoints_orthogonal)
  have empty: "isEmpty (cellAt (fst ?st1) (psub (1, 0) (position (fst ?st1))))"
    by (simp add: example_fillCell example_target1_cells isEmpty_def)
  have d: "distinct (getSurroundingPoints (1, 1) (mStaggeredRenderer example_filler))"
    by (simp add: example_filler_def getSurroundingPoints_orthogonal)
  have out: "\<not> contains example_region (1, 0)"
    by (simp add: example_region_def contains_def rect_contains_def)
  have v: "updateToAdjacent (grid_get [(1, 1) \<mapsto> 1] (1, 0)) (wangId \<lparr>tile = Some 3, wangId = 0x11\<rparr>) (oppositeIndex 0)
      = 0x10000"
    by (simp add: grid_get_def updateToAdjacent_def oppositeIndex_def NumIndexes_def setIndexColor_def indexColor_def)
  have fresh: "([(1, 1) \<mapsto> 1] :: Grid) (1, 0) = None" by simp
  from fillCell_propagates_everywhere [OF placed step i q empty] d
  have "fst (snd ?st1) (1, 0) =
          Some (updateToAdjacent (grid_get [(1, 1) \<mapsto> 1] (1, 0))
            (wangId (fst (findBestMatch (mWangSet example_filler) (grid_get [(1, 1) \<mapsto> 1] (1, 1)) example_rng)))
            (oppositeIndex 0))"
    by blast
  then have "fst (snd ?st1) (1, 0) = Some 0x10000"
    using v by (simp only: example_findBestMatch1 fst_conv)
  with placed q out fresh empty d show ?thesis by blast
qed

section \<open>Properties of the single-cell fitter\<close>

lemma rp_take_member: "rp \<noteq> [] \<Longrightarrow> fst (rp_take rp rng) \<in> fst ` set rp"
  by (simp add: rp_take_def draw_def Let_def)

lemma rp_take_rest_subset: "set (fst (snd (rp_take rp rng))) \<subseteq> set rp"
proof -
  have "set (take i rp @ drop (Suc i) rp) \<subseteq> set rp" for i
    using set_take_subset[of i rp] set_drop_subset[of "Suc i" rp] by auto
  then show ?thesis by (simp add: rp_take_def draw_def Let_def)
qed

lemma rp_take_rest_length: "rp \<noteq> [] \<Longrightarrow> Suc (length (fst (snd (rp_take rp rng)))) = length rp"
proof -
  assume ne: "rp \<noteq> []"
  then have "rng 0 mod length rp < length rp" by simp
  then show ?thesis by (simp add: rp_take_def draw_def Let_def)
qed

lemma takeLoop_empty: "takeLoop filler b f region point [] rng w = (w, rng)"
  by (subst takeLoop.simps) (simp add: rp_isEmpty_def)

lemma takeLoop_step:
  "pool \<noteq> [] \<Longrightarrow>
   takeLoop filler b f region point pool rng w =
     (if \<not> continueFlag filler b f region point (fst (rp_take pool rng))
      then (fst (rp_take pool rng), snd (snd (rp_take pool rng)))
      else takeLoop filler b f region point (fst (snd (rp_take pool rng))) (snd (snd (rp_take pool rng)))
             (fst (rp_take pool rng)))"
  by (subst takeLoop.simps) (simp add: rp_isEmpty_def Let_def)

lemma takeLoop_member:
  "length pool = n \<Longrightarrow> fst (takeLoop filler b f region point pool rng w) \<in> insert w (fst ` set pool)"
proof (induction n arbitrary: pool rng w)
  case 0
  then show ?case by (simp add: takeLoop_empty)
next
  case (Suc n)
  then have ne: "pool \<noteq> []" by auto
  define t where "t = fst (rp_take pool rng)"
  define rest where "rest = fst (snd (rp_take pool rng))"
  define rng1 where "rng1 = snd (snd (rp_take pool rng))"
  have "Suc (length rest) = length pool"
    unfolding rest_def using ne by (rule rp_take_rest_length)
  with Suc.prems have "length rest = n" by simp
  then have ih: "fst (takeLoop filler b f region point rest rng1 t) \<in> insert t (fst ` set rest)"
    by (rule Suc.IH)
  have tmem: "t \<in> fst ` set pool"
    unfolding t_def using ne by (rule rp_take_member)
  have "set rest \<subseteq> set pool"
    unfolding rest_def by (rule rp_take_rest_subset)
  then have "fst ` set rest \<subseteq> fst ` set pool" by (rule image_mono)
  with ih tmem have rec: "fst (takeLoop filler b f region point rest rng1 t) \<in> fst ` set pool"
    by auto
  have "takeLoop filler b f region point pool rng w =
     (if \<not> continueFlag filler b f region point t then (t, rng1)
      else takeLoop filler b f region point rest rng1 t)"
    unfolding t_def rest_def rng1_def using ne by (rule takeLoop_step)
  then have "fst (takeLoop filler b f region point pool rng w) \<in> fst ` set pool"
    using rec tmem by (simp split: if_splits)
  then show ?case by simp
qed

lemma takeLoop_member_ne:
  assumes ne: "pool \<noteq> []"
  shows "fst (takeLoop filler b f region point pool rng w) \<in> fst ` set pool"
proof -
  define t where "t = fst (rp_take pool rng)"
  define rest where "rest = fst (snd (rp_take pool rng))"
  define rng1 where "rng1 = snd (snd (rp_take pool rng))"
  have ih: "fst (takeLoop filler b f region point rest rng1 t) \<in> insert t (fst ` set rest)"
    by (rule takeLoop_member[OF refl])
  have tmem: "t \<in> fst ` set pool"
    unfolding t_def using ne by (rule rp_take_member)
  have "set rest \<subseteq> set pool"
    unfolding rest_def by (rule rp_take_rest_subset)
  then have "fst ` set rest \<subseteq> fst ` set pool" by (rule image_mono)
  with ih tmem have rec: "fst (takeLoop filler b f region point rest rng1 t) \<in> fst ` set pool"
    by auto
  have "takeLoop filler b f region point pool rng w =
     (if \<not> continueFlag filler b f region point t then (t, rng1)
      else takeLoop filler b f region point rest rng1 t)"
    unfolding t_def rest_def rng1_def using ne by (rule takeLoop_step)
  then show ?thesis
    using rec tmem by (simp split: if_splits)
qed

lemma drawSeq_Suc_ne: "drawSeq (Suc n) rp rng \<noteq> []"
  by (simp add: Let_def)

lemma takeLoop_all_fail:
  "length pool = n \<Longrightarrow> pool \<noteq> [] \<Longrightarrow>
   \<forall>t\<in>fst ` set pool. continueFlag filler b f region point t \<Longrightarrow>
     fst (takeLoop filler b f region point pool rng w) = last (drawSeq n pool rng)"
proof (induction n arbitrary: pool rng w)
  case 0
  then show ?case by simp
next
  case (Suc n)
  note ne = Suc.prems(2)
  define t where "t = fst (rp_take pool rng)"
  define rest where "rest = fst (snd (rp_take pool rng))"
  define rng1 where "rng1 = snd (snd (rp_take pool rng))"
  have "Suc (length rest) = length pool"
    unfolding rest_def using ne by (rule rp_take_rest_length)
  with Suc.prems(1) have len: "length rest = n" by simp
  have tmem: "t \<in> fst ` set pool"
    unfolding t_def using ne by (rule rp_take_member)
  with Suc.prems(3) have fail: "continueFlag filler b f region point t" by blast
  have "set rest \<subseteq> set pool"
    unfolding rest_def by (rule rp_take_rest_subset)
  then have "fst ` set rest \<subseteq> fst ` set pool" by (rule image_mono)
  with Suc.prems(3) have allfail: "\<forall>t\<in>fst ` set rest. continueFlag filler b f region point t"
    by blast
  have "takeLoop filler b f region point pool rng w =
     (if \<not> continueFlag filler b f region point t then (t, rng1)
      else takeLoop filler b f region point rest rng1 t)"
    unfolding t_def rest_def rng1_def using ne by (rule takeLoop_step)
  with fail have step: "takeLoop filler b f region point pool rng w =
      takeLoop filler b f region point rest rng1 t" by simp
  have seq: "drawSeq (Suc n) pool rng = t # drawSeq n rest rng1"
    by (simp add: Let_def t_def rest_def rng1_def)
  show ?case
  proof (cases n)
    case 0
    with len have "rest = []" by simp
    with step 0 seq show ?thesis by (simp add: takeLoop_empty)
  next
    case (Suc k)
    with len have rne: "rest \<noteq> []" by auto
    have "fst (takeLoop filler b f region point rest rng1 t) = last (drawSeq n rest rng1)"
      using len rne allfail by (rule Suc.IH)
    moreover have "drawSeq n rest rng1 \<noteq> []"
      unfolding Suc by (rule drawSeq_Suc_ne)
    ultimately show ?thesis using step seq by simp
  qed
qed

lemma fold_rp_add:
  "fold (\<lambda>t rp. rp_add rp t (p t)) ts rp0 = rp0 @ map (\<lambda>t. (t, p t)) ts"
  by (induction ts arbitrary: rp0) (simp_all add: rp_add_def)

lemma pool_tiles:
  "fst ` set (fold (\<lambda>t rp. rp_add rp t (p t)) ts rp_clear) = set ts"
  by (simp add: fold_rp_add rp_clear_def image_image)

lemma pool_isEmpty:
  "rp_isEmpty (fold (\<lambda>t rp. rp_add rp t (p t)) ts rp_clear) \<longleftrightarrow> ts = []"
  by (simp add: fold_rp_add rp_clear_def rp_isEmpty_def)

lemma wangIdFromSurroundings_wild:
  "wangIdFromSurroundings (filler\<lparr>mWangSet := (mWangSet filler)\<lparr>wildWangIdIsUsed := used\<rparr>\<rparr>) b f region point =
   wangIdFromSurroundings filler b f region point"
  by (simp add: wangIdFromSurroundings_def)

lemma example_wid:
  "wangIdFromSurroundings example_filler example_layer example_layer example_region (1, 1) = 0x11111111"
  by (simp add: wangIdFromSurroundings_def example_filler_def example_wangSet_def)

lemma example_matching:
  "findMatchingWangTiles (mWangSet example_filler) 0x11111111 = [\<lparr>tile = Some 1, wangId = 0x11111111\<rparr>]"
  by (simp add: example_filler_def example_wangSet_def)

lemma example_pool:
  "fold (\<lambda>wangTile rp. rp_add rp wangTile (wangTileProbability (mWangSet example_filler) wangTile))
     (findMatchingWangTiles (mWangSet example_filler)
        (wangIdFromSurroundings example_filler example_layer example_layer example_region (1, 1)))
     rp_clear = [(\<lparr>tile = Some 1, wangId = 0x11111111\<rparr>, 1)]"
  unfolding example_wid example_matching
  by (simp add: rp_add_def rp_clear_def example_filler_def example_wangSet_def)

lemma example_continueFlag:
  "continueFlag example_filler example_layer example_layer example_region (1, 1)
     \<lparr>tile = Some 1, wangId = 0x11111111\<rparr>"
  by (simp add: continueFlag_def upt_8 example_filler_def getSurroundingPoints_orthogonal getCell_def
      example_region_def contains_def rect_contains_def cellAt_def example_layer_def isEmpty_def
      example_wangSet_def)

text \<open>
  C5. In \<open>findFittingCell\<close> with a catalog that is not complete, whenever the weighted
  pool of the candidates matching the constraint of the surroundings is not empty (its
  candidates all referring to a tile), the cell returned is not empty; and if every
  candidate fails the lookahead check, so that the pool is drawn empty, the cell of the
  last candidate drawn is returned.
\<close>

theorem findFittingCell_fallback:
  assumes incomplete: "\<not> isComplete (mWangSet filler)"
    and pool: "pool = fold (\<lambda>wangTile rp. rp_add rp wangTile (wangTileProbability (mWangSet filler) wangTile))
                 (findMatchingWangTiles (mWangSet filler) (wangIdFromSurroundings filler back front region point))
                 rp_clear"
    and nonempty: "\<not> rp_isEmpty pool"
    and wellformed: "\<forall>t\<in>fst ` set pool. tile t \<noteq> None"
  shows "\<not> isEmpty (fst (findFittingCell filler back front region point rng)) \<and>
         ((\<forall>t\<in>fst ` set pool. continueFlag filler back front region point t) \<longrightarrow>
            fst (findFittingCell filler back front region point rng) = makeCell (last (drawAll pool rng)))"
proof -
  have res: "fst (findFittingCell filler back front region point rng) =
               makeCell (fst (takeLoop filler back front region point pool rng WangTile_default))"
    using incomplete nonempty unfolding findFittingCell_def pool Let_def by simp
  from nonempty have ne: "pool \<noteq> []" by (simp add: rp_isEmpty_def)
  have mem: "fst (takeLoop filler back front region point pool rng WangTile_default) \<in> fst ` set pool"
    using ne by (rule takeLoop_member_ne)
  with wellformed have "tile (fst (takeLoop filler back front region point pool rng WangTile_default)) \<noteq> None"
    by blast
  then have a: "\<not> isEmpty (fst (findFittingCell filler back front region point rng))"
    by (simp add: res makeCell_def isEmpty_def)
  have b: "fst (findFittingCell filler back front region point rng) = makeCell (last (drawAll pool rng))"
    if "\<forall>t\<in>fst ` set pool. continueFlag filler back front region point t"
    using takeLoop_all_fail[OF refl ne that, of rng WangTile_default]
    by (simp add: res drawAll_def)
  from a b show ?thesis by blast
qed

theorem findFittingCell_fallback_witness:
  "\<not> isComplete (mWangSet example_filler) \<and>
   \<not> rp_isEmpty [(\<lparr>tile = Some 1, wangId = 0x11111111\<rparr>, 1 :: real)] \<and>
   continueFlag example_filler example_layer example_layer example_region (1, 1)
     \<lparr>tile = Some 1, wangId = 0x11111111\<rparr> \<and>
   drawAll [(\<lparr>tile = Some 1, wangId = 0x11111111\<rparr>, 1 :: real)] example_rng =
     [\<lparr>tile = Some 1, wangId = 0x11111111\<rparr>] \<and>
   \<not> isEmpty (fst (findFittingCell example_filler example_layer example_layer example_region (1, 1) example_rng)) \<and>
   fst (findFittingCell example_filler example_layer example_layer example_region (1, 1) example_rng) = Some 1"
proof -
  let ?pool = "[(\<lparr>tile = Some 1, wangId = 0x11111111\<rparr>, 1 :: real)]"
  have incomplete: "\<not> isComplete (mWangSet example_filler)"
    by (simp add: example_filler_def example_wangSet_def)
  have pool: "?pool =
     fold (\<lambda>wangTile rp. rp_add rp wangTile (wangTileProbability (mWangSet example_filler) wangTile))
     (findMatchingWangTiles (mWangSet example_filler)
        (wangIdFromSurroundings example_filler example_layer example_layer example_region (1, 1)))
     rp_clear"
    by (simp only: example_pool)
  have nonempty: "\<not> rp_isEmpty ?pool" by (simp add: rp_isEmpty_def)
  have wellformed: "\<forall>t\<in>fst ` set ?pool. tile t \<noteq> None" by simp
  have allfail: "\<forall>t\<in>fst ` set ?pool.
      continueFlag example_filler example_layer example_layer example_region (1, 1) t"
    using example_continueFlag by simp
  have drawn: "drawAll ?pool example_rng = [\<lparr>tile = Some 1, wangId = 0x11111111\<rparr>]"
    by (simp add: drawAll_def rp_take_def draw_def example_rng_def)
  from findFittingCell_fallback [OF incomplete pool nonempty wellformed, of example_rng] allfail
  have "\<not> isEmpty (fst (findFittingCell example_filler example_layer example_layer example_region (1, 1) example_rng))"
    and "fst (findFittingCell example_filler example_layer example_layer example_region (1, 1) example_rng) =
      makeCell (last (drawAll ?pool example_rng))"
    by blast+
  with incomplete nonempty example_continueFlag drawn show ?thesis
    by (simp add: makeCell_def)
qed

text \<open>
  C6. In \<open>findFittingCell\<close>, if no tile of the catalog matches the constraint derived
  from the 8 surroundings of the cell, an empty cell is returned. Otherwise, if the
  catalog is complete, the cell of one pick from the pool of the matching tiles is
  returned at once; the lookahead is not run: the result is the same whatever
  \<open>wildWangIdIsUsed\<close> answers.
\<close>

theorem findFittingCell_complete:
  assumes wid: "wid = wangIdFromSurroundings filler back front region point"
    and pool: "pool = fold (\<lambda>wangTile rp. rp_add rp wangTile (wangTileProbability (mWangSet filler) wangTile))
                 (findMatchingWangTiles (mWangSet filler) wid) rp_clear"
  shows "(findMatchingWangTiles (mWangSet filler) wid = [] \<longrightarrow>
            findFittingCell filler back front region point rng = (None, rng)) \<and>
         (findMatchingWangTiles (mWangSet filler) wid \<noteq> [] \<and> isComplete (mWangSet filler) \<longrightarrow>
            findFittingCell filler back front region point rng =
              (makeCell (fst (rp_pick pool rng)), snd (rp_pick pool rng)) \<and>
            fst (rp_pick pool rng) \<in> set (findMatchingWangTiles (mWangSet filler) wid) \<and>
            (\<forall>used. findFittingCell (filler\<lparr>mWangSet := (mWangSet filler)\<lparr>wildWangIdIsUsed := used\<rparr>\<rparr>)
                      back front region point rng =
                    findFittingCell filler back front region point rng))"
proof -
  have empty: "rp_isEmpty pool \<longleftrightarrow> findMatchingWangTiles (mWangSet filler) wid = []"
    unfolding pool by (rule pool_isEmpty)
  have a: "findFittingCell filler back front region point rng = (None, rng)"
    if "findMatchingWangTiles (mWangSet filler) wid = []"
    using that empty unfolding findFittingCell_def Let_def wid[symmetric] pool[symmetric] by simp
  have b: "findFittingCell filler back front region point rng =
              (makeCell (fst (rp_pick pool rng)), snd (rp_pick pool rng))"
    if "findMatchingWangTiles (mWangSet filler) wid \<noteq> []" "isComplete (mWangSet filler)"
    using that empty unfolding findFittingCell_def Let_def wid[symmetric] pool[symmetric] by simp
  have c: "fst (rp_pick pool rng) \<in> set (findMatchingWangTiles (mWangSet filler) wid)"
    if ne: "findMatchingWangTiles (mWangSet filler) wid \<noteq> []"
  proof -
    from ne empty have "pool \<noteq> []" by (simp add: rp_isEmpty_def)
    then have "fst (rp_pick pool rng) \<in> fst ` set pool" by (rule rp_pick_member)
    then show ?thesis unfolding pool by (simp only: pool_tiles)
  qed
  have d: "findFittingCell (filler\<lparr>mWangSet := (mWangSet filler)\<lparr>wildWangIdIsUsed := used\<rparr>\<rparr>)
              back front region point rng = findFittingCell filler back front region point rng"
    if "findMatchingWangTiles (mWangSet filler) wid \<noteq> []" "isComplete (mWangSet filler)" for used
    using that empty
    unfolding findFittingCell_def Let_def wangIdFromSurroundings_wild wid[symmetric] pool[symmetric]
    by (simp add: wid[symmetric] pool[symmetric])
  from a b c d show ?thesis by blast
qed

theorem findFittingCell_complete_witness:
  "findMatchingWangTiles (mWangSet example_barren_filler)
     (wangIdFromSurroundings example_barren_filler example_layer example_layer example_region (1, 1)) = [] \<and>
   findFittingCell example_barren_filler example_layer example_layer example_region (1, 1) example_rng =
     (None, example_rng) \<and>
   findMatchingWangTiles (mWangSet example_complete_filler)
     (wangIdFromSurroundings example_complete_filler example_layer example_layer example_region (1, 1)) \<noteq> [] \<and>
   isComplete (mWangSet example_complete_filler) \<and>
   findFittingCell example_complete_filler example_layer example_layer example_region (1, 1) example_rng =
     (Some 1, example_rng)"
proof -
  have none: "findMatchingWangTiles (mWangSet example_barren_filler)
     (wangIdFromSurroundings example_barren_filler example_layer example_layer example_region (1, 1)) = []"
    by (simp add: example_barren_filler_def)
  have some: "findMatchingWangTiles (mWangSet example_complete_filler)
     (wangIdFromSurroundings example_complete_filler example_layer example_layer example_region (1, 1)) =
       [\<lparr>tile = Some 1, wangId = 0x11111111\<rparr>]"
    by (simp add: example_complete_filler_def example_filler_def example_wangSet_def wangIdFromSurroundings_def)
  have complete: "isComplete (mWangSet example_complete_filler)"
    by (simp add: example_complete_filler_def)
  have pick: "rp_pick
     (fold (\<lambda>wangTile rp. rp_add rp wangTile (wangTileProbability (mWangSet example_complete_filler) wangTile))
        [\<lparr>tile = Some 1, wangId = 0x11111111\<rparr>] rp_clear) example_rng =
     (\<lparr>tile = Some 1, wangId = 0x11111111\<rparr>, example_rng)"
    by (simp add: rp_add_def rp_clear_def rp_pick_def draw_def example_rng_def)
  from findFittingCell_complete [OF refl refl, of example_barren_filler example_layer example_layer
      example_region "(1, 1)" example_rng] none
  have a: "findFittingCell example_barren_filler example_layer example_layer example_region (1, 1) example_rng =
     (None, example_rng)" by blast
  from findFittingCell_complete [OF refl refl, of example_complete_filler example_layer example_layer
      example_region "(1, 1)" example_rng] some complete
  have "findFittingCell example_complete_filler example_layer example_layer example_region (1, 1) example_rng =
     (makeCell (fst (rp_pick
     (fold (\<lambda>wangTile rp. rp_add rp wangTile (wangTileProbability (mWangSet example_complete_filler) wangTile))
        [\<lparr>tile = Some 1, wangId = 0x11111111\<rparr>] rp_clear) example_rng)),
      snd (rp_pick
     (fold (\<lambda>wangTile rp. rp_add rp wangTile (wangTileProbability (mWangSet example_complete_filler) wangTile))
        [\<lparr>tile = Some 1, wangId = 0x11111111\<rparr>] rp_clear) example_rng))"
    by simp
  then have b: "findFittingCell example_complete_filler example_layer example_layer example_region (1, 1) example_rng =
     (Some 1, example_rng)"
    unfolding pick by (simp add: makeCell_def)
  from none some complete a b show ?thesis by simp
qed

section \<open>Properties of the first phase\<close>

lemma fifteen: "(15 :: 32 word) = mask 4"
  by (simp add: mask_eq_exp_minus_1)

lemma indexColor_setIndexColor_same:
  "i < 8 \<Longrightarrow> indexColor (setIndexColor w i v) i = v AND 15"
  unfolding indexColor_def setIndexColor_def fifteen
  by (rule bit_word_eqI) (auto simp: bit_simps)

lemma indexColor_setIndexColor_other:
  assumes ne: "i \<noteq> j"
  shows "indexColor (setIndexColor w i v) j = indexColor w j"
  unfolding indexColor_def setIndexColor_def fifteen
proof (rule bit_word_eqI)
  fix n assume "n < LENGTH(32)"
  have "i * 4 \<le> j * 4 + n \<Longrightarrow> n < 4 \<Longrightarrow> \<not> j * 4 + n - i * 4 < 4"
    using ne by arith
  moreover have "\<not> i * 4 \<le> j * 4 + n \<or> 4 \<le> j * 4 + n - i * 4 \<or> 4 \<le> n"
    using ne by arith
  ultimately show "bit (drop_bit (j * 4) (w AND NOT (push_bit (i * 4) (mask 4)) OR push_bit (i * 4) (v AND mask 4)) AND mask 4) n
    = bit (drop_bit (j * 4) w AND mask 4) n"
    by (auto simp: bit_simps dest: bit_imp_le_length)
qed

lemma indexColor_AND_15: "indexColor w i AND 15 = indexColor w i"
  unfolding indexColor_def by (simp add: and.assoc)

lemma indexColor_mergeFromAdjacent:
  "pos < 8 \<Longrightarrow>
   indexColor (mergeFromAdjacent w adjacent pos) j =
     (if j = pos then indexColor adjacent (oppositeIndex pos) else indexColor w j)"
  by (simp add: mergeFromAdjacent_def indexColor_setIndexColor_same indexColor_setIndexColor_other
      indexColor_AND_15)

lemma seedFrom_slot:
  "pos < 8 \<Longrightarrow>
   indexColor (grid_get (seedFrom filler b region outside inside pos g) q) j =
     (if \<not> contains region outside \<and> q = inside \<and> j = pos
      then indexColor (wangIdOfCell (mWangSet filler) (cellAt b outside)) (oppositeIndex pos)
      else indexColor (grid_get g q) j)"
  by (simp add: seedFrom_def Let_def grid_get_def grid_set_def indexColor_mergeFromAdjacent)

lemma neighbour_dirs:
  "neighbour (x, y) Top = (x, y - 1)" "neighbour (x, y) Bottom = (x, y + 1)"
  "neighbour (x, y) Left = (x - 1, y)" "neighbour (x, y) Right = (x + 1, y)"
  by (simp_all add: neighbour_def aroundTilePoints_def padd_def Top_def Bottom_def Left_def Right_def)

lemma fold_preserve:
  "(\<And>x g. P g \<Longrightarrow> P (f x g)) \<Longrightarrow> P g \<Longrightarrow> P (fold f xs g)"
  by (induction xs arbitrary: g) simp_all

lemma fold_establish:
  "x \<in> set xs \<Longrightarrow> (\<And>g. P (f x g)) \<Longrightarrow> (\<And>y g. P g \<Longrightarrow> P (f y g)) \<Longrightarrow> P (fold f xs g)"
proof (induction xs arbitrary: g)
  case Nil
  then show ?case by simp
next
  case (Cons a xs)
  show ?case
  proof (cases "x = a")
    case True
    have "P (f a g)" unfolding True[symmetric] by (rule Cons.prems(2))
    then have "P (fold f xs (f a g))" using Cons.prems(3) by (rule fold_preserve[rotated])
    then show ?thesis by simp
  next
    case False
    with Cons.prems(1) have "x \<in> set xs" by simp
    then have "P (fold f xs (f a g))" using Cons.prems(2,3) by (rule Cons.IH)
    then show ?thesis by simp
  qed
qed

lemma dirs_lt_8: "pos \<in> {Top, Right, Bottom, Left} \<Longrightarrow> pos < 8"
  by (auto simp: Top_def Right_def Bottom_def Left_def)

lemma oppositeIndex_lt_8: "oppositeIndex i < 8"
  by (simp add: oppositeIndex_def NumIndexes_def)

lemma seedFrom_preserves:
  assumes uniform: "\<And>p d i. outwardFacing region p d \<Longrightarrow> i < 8 \<Longrightarrow>
      indexColor (wangIdOfCell (mWangSet filler) (cellAt b (neighbour p d))) i = c"
    and facing: "outwardFacing region p d"
    and nb: "outside = neighbour inside pos"
    and pos: "pos \<in> {Top, Right, Bottom, Left}"
    and good: "indexColor (grid_get g p) d = c"
  shows "indexColor (grid_get (seedFrom filler b region outside inside pos g) p) d = c"
proof (cases "\<not> contains region outside \<and> p = inside \<and> d = pos")
  case True
  then have "indexColor (grid_get (seedFrom filler b region outside inside pos g) p) d =
      indexColor (wangIdOfCell (mWangSet filler) (cellAt b outside)) (oppositeIndex pos)"
    using dirs_lt_8[OF pos] by (simp add: seedFrom_slot)
  also have "\<dots> = indexColor (wangIdOfCell (mWangSet filler) (cellAt b (neighbour p d))) (oppositeIndex d)"
    using True nb by simp
  also have "\<dots> = c"
    using facing oppositeIndex_lt_8 by (rule uniform)
  finally show ?thesis .
next
  case False
  have "indexColor (grid_get (seedFrom filler b region outside inside pos g) p) d =
     (if \<not> contains region outside \<and> p = inside \<and> d = pos
      then indexColor (wangIdOfCell (mWangSet filler) (cellAt b outside)) (oppositeIndex pos)
      else indexColor (grid_get g p) d)"
    using dirs_lt_8[OF pos] by (rule seedFrom_slot)
  also have "\<dots> = indexColor (grid_get g p) d"
    using False by (rule if_not_P)
  finally show ?thesis using good by simp
qed

lemma seedFrom_establishes:
  assumes uniform: "\<And>p d i. outwardFacing region p d \<Longrightarrow> i < 8 \<Longrightarrow>
      indexColor (wangIdOfCell (mWangSet filler) (cellAt b (neighbour p d))) i = c"
    and facing: "outwardFacing region p d"
  shows "indexColor (grid_get (seedFrom filler b region (neighbour p d) p d g) p) d = c"
proof -
  from facing have out: "\<not> contains region (neighbour p d)" and d: "d \<in> {Top, Right, Bottom, Left}"
    by (simp_all add: outwardFacing_def)
  have "indexColor (grid_get (seedFrom filler b region (neighbour p d) p d g) p) d =
      indexColor (wangIdOfCell (mWangSet filler) (cellAt b (neighbour p d))) (oppositeIndex d)"
    using dirs_lt_8[OF d] out by (simp add: seedFrom_slot)
  also have "\<dots> = c"
    using facing oppositeIndex_lt_8 by (rule uniform)
  finally show ?thesis .
qed

lemma seedColumn_preserves:
  assumes uniform: "\<And>p d i. outwardFacing region p d \<Longrightarrow> i < 8 \<Longrightarrow>
      indexColor (wangIdOfCell (mWangSet filler) (cellAt b (neighbour p d))) i = c"
    and facing: "outwardFacing region p d"
    and good: "indexColor (grid_get g p) d = c"
  shows "indexColor (grid_get (seedColumn filler b region rect x g) p) d = c"
proof -
  have s1: "indexColor (grid_get (seedFrom filler b region (x, rect_top rect - 1) (x, rect_top rect) Top g) p) d = c"
    by (rule seedFrom_preserves[OF uniform facing _ _ good]) (simp_all add: neighbour_dirs)
  have "indexColor (grid_get (seedFrom filler b region (x, rect_bottom rect + 1) (x, rect_bottom rect) Bottom
      (seedFrom filler b region (x, rect_top rect - 1) (x, rect_top rect) Top g)) p) d = c"
    by (rule seedFrom_preserves[OF uniform facing _ _ s1]) (simp_all add: neighbour_dirs)
  then show ?thesis by (simp add: seedColumn_def Let_def)
qed

lemma seedRow_preserves:
  assumes uniform: "\<And>p d i. outwardFacing region p d \<Longrightarrow> i < 8 \<Longrightarrow>
      indexColor (wangIdOfCell (mWangSet filler) (cellAt b (neighbour p d))) i = c"
    and facing: "outwardFacing region p d"
    and good: "indexColor (grid_get g p) d = c"
  shows "indexColor (grid_get (seedRow filler b region rect y g) p) d = c"
proof -
  have s1: "indexColor (grid_get (seedFrom filler b region (rect_left rect - 1, y) (rect_left rect, y) Left g) p) d = c"
    by (rule seedFrom_preserves[OF uniform facing _ _ good]) (simp_all add: neighbour_dirs)
  have "indexColor (grid_get (seedFrom filler b region (rect_right rect + 1, y) (rect_right rect, y) Right
      (seedFrom filler b region (rect_left rect - 1, y) (rect_left rect, y) Left g)) p) d = c"
    by (rule seedFrom_preserves[OF uniform facing _ _ s1]) (simp_all add: neighbour_dirs)
  then show ?thesis by (simp add: seedRow_def Let_def)
qed

lemma seedRect_preserves:
  assumes uniform: "\<And>p d i. outwardFacing region p d \<Longrightarrow> i < 8 \<Longrightarrow>
      indexColor (wangIdOfCell (mWangSet filler) (cellAt b (neighbour p d))) i = c"
    and facing: "outwardFacing region p d"
    and good: "indexColor (grid_get g p) d = c"
  shows "indexColor (grid_get (seedRect filler b region rect g) p) d = c"
proof -
  have "indexColor (grid_get (fold (seedColumn filler b region rect) [rect_left rect..rect_right rect] g) p) d = c"
    using good
    by (rule fold_preserve[where P = "\<lambda>g. indexColor (grid_get g p) d = c", rotated])
       (rule seedColumn_preserves[OF uniform facing])
  then have "indexColor (grid_get (fold (seedRow filler b region rect) [rect_top rect..rect_bottom rect]
      (fold (seedColumn filler b region rect) [rect_left rect..rect_right rect] g)) p) d = c"
    by (rule fold_preserve[where P = "\<lambda>g. indexColor (grid_get g p) d = c", rotated])
       (rule seedRow_preserves[OF uniform facing])
  then show ?thesis by (simp add: seedRect_def Let_def)
qed

lemma seedColumn_establishes:
  assumes uniform: "\<And>p d i. outwardFacing region p d \<Longrightarrow> i < 8 \<Longrightarrow>
      indexColor (wangIdOfCell (mWangSet filler) (cellAt b (neighbour p d))) i = c"
    and facing: "outwardFacing region (px, py) d"
    and edge: "d = Top \<and> py = rect_top rect \<or> d = Bottom \<and> py = rect_bottom rect"
  shows "indexColor (grid_get (seedColumn filler b region rect px g) (px, py)) d = c"
proof -
  let ?g1 = "seedFrom filler b region (px, rect_top rect - 1) (px, rect_top rect) Top g"
  let ?g2 = "seedFrom filler b region (px, rect_bottom rect + 1) (px, rect_bottom rect) Bottom ?g1"
  have res: "seedColumn filler b region rect px g = ?g2"
    by (simp add: seedColumn_def Let_def)
  from edge show ?thesis
  proof
    assume top: "d = Top \<and> py = rect_top rect"
    then have "?g1 = seedFrom filler b region (neighbour (px, py) d) (px, py) d g"
      by (simp add: neighbour_dirs)
    then have s1: "indexColor (grid_get ?g1 (px, py)) d = c"
      using seedFrom_establishes[OF uniform facing] by simp
    have "indexColor (grid_get ?g2 (px, py)) d = c"
      by (rule seedFrom_preserves[OF uniform facing _ _ s1]) (simp_all add: neighbour_dirs)
    with res show ?thesis by simp
  next
    assume bottom: "d = Bottom \<and> py = rect_bottom rect"
    then have "?g2 = seedFrom filler b region (neighbour (px, py) d) (px, py) d ?g1"
      by (simp add: neighbour_dirs)
    then have "indexColor (grid_get ?g2 (px, py)) d = c"
      using seedFrom_establishes[OF uniform facing] by simp
    with res show ?thesis by simp
  qed
qed

lemma seedRow_establishes:
  assumes uniform: "\<And>p d i. outwardFacing region p d \<Longrightarrow> i < 8 \<Longrightarrow>
      indexColor (wangIdOfCell (mWangSet filler) (cellAt b (neighbour p d))) i = c"
    and facing: "outwardFacing region (px, py) d"
    and edge: "d = Left \<and> px = rect_left rect \<or> d = Right \<and> px = rect_right rect"
  shows "indexColor (grid_get (seedRow filler b region rect py g) (px, py)) d = c"
proof -
  let ?g1 = "seedFrom filler b region (rect_left rect - 1, py) (rect_left rect, py) Left g"
  let ?g2 = "seedFrom filler b region (rect_right rect + 1, py) (rect_right rect, py) Right ?g1"
  have res: "seedRow filler b region rect py g = ?g2"
    by (simp add: seedRow_def Let_def)
  from edge show ?thesis
  proof
    assume left: "d = Left \<and> px = rect_left rect"
    then have "?g1 = seedFrom filler b region (neighbour (px, py) d) (px, py) d g"
      by (simp add: neighbour_dirs)
    then have s1: "indexColor (grid_get ?g1 (px, py)) d = c"
      using seedFrom_establishes[OF uniform facing] by simp
    have "indexColor (grid_get ?g2 (px, py)) d = c"
      by (rule seedFrom_preserves[OF uniform facing _ _ s1]) (simp_all add: neighbour_dirs)
    with res show ?thesis by simp
  next
    assume right: "d = Right \<and> px = rect_right rect"
    then have "?g2 = seedFrom filler b region (neighbour (px, py) d) (px, py) d ?g1"
      by (simp add: neighbour_dirs)
    then have "indexColor (grid_get ?g2 (px, py)) d = c"
      using seedFrom_establishes[OF uniform facing] by simp
    with res show ?thesis by simp
  qed
qed

lemma facing_edge:
  assumes facing: "outwardFacing region (px, py) d"
    and rect: "rect \<in> set region" and inside: "rect_contains rect (px, py)"
  shows "d = Top \<and> py = rect_top rect \<or> d = Bottom \<and> py = rect_bottom rect \<or>
         d = Left \<and> px = rect_left rect \<or> d = Right \<and> px = rect_right rect"
proof -
  from facing have d: "d \<in> {Top, Right, Bottom, Left}"
    and out: "\<not> contains region (neighbour (px, py) d)"
    by (simp_all add: outwardFacing_def)
  from out rect have nr: "\<not> rect_contains rect (neighbour (px, py) d)"
    by (auto simp: contains_def list_ex_iff)
  from d consider "d = Top" | "d = Right" | "d = Bottom" | "d = Left" by auto
  then show ?thesis
  proof cases
    case 1
    with nr inside show ?thesis by (auto simp: neighbour_dirs rect_contains_def)
  next
    case 2
    with nr inside show ?thesis by (auto simp: neighbour_dirs rect_contains_def)
  next
    case 3
    with nr inside show ?thesis by (auto simp: neighbour_dirs rect_contains_def)
  next
    case 4
    with nr inside show ?thesis by (auto simp: neighbour_dirs rect_contains_def)
  qed
qed

lemma seedRect_establishes:
  assumes uniform: "\<And>p d i. outwardFacing region p d \<Longrightarrow> i < 8 \<Longrightarrow>
      indexColor (wangIdOfCell (mWangSet filler) (cellAt b (neighbour p d))) i = c"
    and facing: "outwardFacing region (px, py) d"
    and rect: "rect \<in> set region" and inside: "rect_contains rect (px, py)"
  shows "indexColor (grid_get (seedRect filler b region rect g) (px, py)) d = c"
proof -
  let ?P = "\<lambda>g. indexColor (grid_get g (px, py)) d = c"
  let ?g1 = "fold (seedColumn filler b region rect) [rect_left rect..rect_right rect] g"
  from inside have x: "px \<in> set [rect_left rect..rect_right rect]"
    and y: "py \<in> set [rect_top rect..rect_bottom rect]"
    by (simp_all add: rect_contains_def)
  have res: "seedRect filler b region rect g =
      fold (seedRow filler b region rect) [rect_top rect..rect_bottom rect] ?g1"
    by (simp add: seedRect_def Let_def)
  from facing_edge[OF facing rect inside]
  consider (col) "d = Top \<and> py = rect_top rect \<or> d = Bottom \<and> py = rect_bottom rect"
    | (row) "d = Left \<and> px = rect_left rect \<or> d = Right \<and> px = rect_right rect"
    by blast
  then have "?P (fold (seedRow filler b region rect) [rect_top rect..rect_bottom rect] ?g1)"
  proof cases
    case col
    have "?P ?g1"
      using x
    proof (rule fold_establish[where P = ?P])
      show "?P (seedColumn filler b region rect px g')" for g'
        by (rule seedColumn_establishes[OF uniform facing col])
      show "?P (seedColumn filler b region rect x' g')" if "?P g'" for x' g'
        by (rule seedColumn_preserves[OF uniform facing that])
    qed
    then show ?thesis
      by (rule fold_preserve[where P = ?P, rotated]) (rule seedRow_preserves[OF uniform facing])
  next
    case row
    show ?thesis
      using y
    proof (rule fold_establish[where P = ?P])
      show "?P (seedRow filler b region rect py g')" for g'
        by (rule seedRow_establishes[OF uniform facing row])
      show "?P (seedRow filler b region rect y' g')" if "?P g'" for y' g'
        by (rule seedRow_preserves[OF uniform facing that])
    qed
  qed
  with res show ?thesis by simp
qed

lemma indexColor_ones: "i < 8 \<Longrightarrow> indexColor 0x11111111 i = 1"
proof -
  assume small: "i < 8"
  have "\<forall>k\<in>set [0..<8]. indexColor 0x11111111 k = 1"
    unfolding upt_8 by (simp add: indexColor_def)
  moreover from small have "i \<in> set [0..<8]" by simp
  ultimately show ?thesis by blast
qed

text \<open>
  C2. For every fill region all of whose outside-adjacent cells carry background tiles of
  one uniform terrain colour \<open>c\<close>, after the first phase of \<open>fillRegion\<close> the entry of
  the grid of constraints of every border cell has its outward-facing slot equal to
  \<open>c\<close>: for every cell of the region and every edge slot (top, right, bottom, left)
  across which the adjacent cell is outside the region. This holds for every grid the
  caller seeds the fill with.
\<close>

theorem phaseA_seeds_border:
  assumes uniform: "\<And>p d i. outwardFacing region p d \<Longrightarrow> i < 8 \<Longrightarrow>
      indexColor (wangIdOfCell (mWangSet filler) (cellAt back (neighbour p d))) i = c"
    and facing: "outwardFacing region p d"
  shows "indexColor (grid_get (phaseA filler back region wangIds) p) d = c"
proof -
  obtain px py where p: "p = (px, py)" by (cases p)
  from facing have "contains region p" by (simp add: outwardFacing_def)
  then obtain rect where rect: "rect \<in> set region" and inside: "rect_contains rect (px, py)"
    by (auto simp: contains_def list_ex_iff p)
  let ?P = "\<lambda>g. indexColor (grid_get g (px, py)) d = c"
  have "?P (fold (seedRect filler back region) region wangIds)"
    using rect
  proof (rule fold_establish[where P = ?P])
    show "?P (seedRect filler back region rect g')" for g'
      using uniform facing[unfolded p] rect inside by (rule seedRect_establishes)
    show "?P (seedRect filler back region r' g')" if "?P g'" for r' g'
      using uniform facing[unfolded p] that by (rule seedRect_preserves)
  qed
  then show ?thesis by (simp add: phaseA_def p)
qed

theorem phaseA_seeds_border_witness:
  "outwardFacing example_region (1, 1) Top \<and>
   indexColor (grid_get (phaseA example_filler example_background example_region Map.empty) (1, 1)) Top = 1 \<and>
   outwardFacing example_region (2, 1) Right \<and>
   indexColor (grid_get (phaseA example_filler example_background example_region Map.empty) (2, 1)) Right = 1"
proof -
  have uniform: "indexColor (wangIdOfCell (mWangSet example_filler) (cellAt example_background (neighbour p d))) i = 1"
    if "outwardFacing example_region p d" "i < 8" for p d i
    using that(2)
    by (simp add: example_background_def cellAt_def example_filler_def example_wangSet_def indexColor_ones)
  have f1: "outwardFacing example_region (1, 1) Top"
    by (simp add: outwardFacing_def example_region_def contains_def rect_contains_def neighbour_dirs)
  have f2: "outwardFacing example_region (2, 1) Right"
    by (simp add: outwardFacing_def example_region_def contains_def rect_contains_def neighbour_dirs)
  from phaseA_seeds_border [of example_region example_filler example_background 1, OF uniform f1, of Map.empty]
    phaseA_seeds_border [of example_region example_filler example_background 1, OF uniform f2, of Map.empty]
    f1 f2
  show ?thesis by simp
qed

section \<open>The frame of a call\<close>

lemma example_phaseA:
  "phaseA example_filler example_background example_cell Map.empty = [(1, 1) \<mapsto> 0x01010101]"
  by (simp add: phaseA_def example_cell_def seedRect_def seedColumn_def seedRow_def seedFrom_def Let_def
      contains_def rect_contains_def example_background_def cellAt_def example_filler_def example_wangSet_def
      grid_get_def grid_set_def mergeFromAdjacent_def setIndexColor_def indexColor_def oppositeIndex_def
      NumIndexes_def Top_def Bottom_def Left_def Right_def)

lemma example_findBestMatch2:
  "findBestMatch example_wangSet 0x01010101 example_rng = (\<lparr>tile = Some 1, wangId = 0x11111111\<rparr>, example_rng)"
  by (simp add: findBestMatch_def example_wangSet_def wangId_mask_def penalty_def NumIndexes_def
      upt_8 indexColor_def INT_MAX_def rp_add_def rp_clear_def rp_isEmpty_def rp_pick_def draw_def
      example_rng_def)

lemma example_fillCell2:
  "fst (fillCell example_filler (1, 1) (example_layer, [(1, 1) \<mapsto> 0x01010101], example_rng)) =
     setCell example_layer 1 1 (Some 1)"
  by (simp add: fillCell_def grid_get_def Let_def)
     (simp add: example_filler_def example_findBestMatch2 example_layer_def makeCell_def Let_def)

lemma example_fill:
  "fst (fillRegion example_filler example_layer example_background Map.empty example_cell example_rng) =
     setCell example_layer 1 1 (Some 1)"
proof -
  have "phaseB example_filler example_cell (example_layer, [(1, 1) \<mapsto> 0x01010101], example_rng) =
      fillCell example_filler (1, 1) (example_layer, [(1, 1) \<mapsto> 0x01010101], example_rng)"
    by (simp add: phaseB_def fillRect_def example_cell_def)
  then show ?thesis
    by (simp add: fillRegion_def example_phaseA split_beta example_fillCell2)
qed

text \<open>
  The first phase leaves the store as it is; a step of the second phase writes the layer
  at \<open>targetRef\<close> and the random source, no other layer and no grid of the store.
\<close>

lemma fold_view:
  "(\<And>x st. view (f x st) = g x (view st)) \<Longrightarrow> view (fold f xs st) = fold g xs (view st)"
  by (induction xs arbitrary: st) simp_all

lemma seedFrom_st_sim:
  "seedFrom_st filler backRef region outside inside pos (s, wangIds) =
     (s, seedFrom filler (layers s backRef) region outside inside pos wangIds)"
  by (simp add: seedFrom_st_def seedFrom_def Let_def)

lemma seedFrom_st_store: "fst (seedFrom_st filler backRef region outside inside pos st) = fst st"
  by (cases st) (simp add: seedFrom_st_sim)

lemma seedFrom_st_grid:
  "snd (seedFrom_st filler backRef region outside inside pos st) =
     seedFrom filler (layers (fst st) backRef) region outside inside pos (snd st)"
  by (cases st) (simp add: seedFrom_st_sim)

lemma seedColumn_st_store: "fst (seedColumn_st filler backRef region rect x st) = fst st"
  by (simp add: seedColumn_st_def Let_def seedFrom_st_store)

lemma seedRow_st_store: "fst (seedRow_st filler backRef region rect y st) = fst st"
  by (simp add: seedRow_st_def Let_def seedFrom_st_store)

lemma seedRect_st_store: "fst (seedRect_st filler backRef region rect st) = fst st"
proof -
  have col: "fst (fold (seedColumn_st filler backRef region rect) xs st') = fst st'" for xs st'
    by (rule fold_preserve[where P = "\<lambda>st''. fst st'' = fst st'"]) (simp_all add: seedColumn_st_store)
  have row: "fst (fold (seedRow_st filler backRef region rect) ys st') = fst st'" for ys st'
    by (rule fold_preserve[where P = "\<lambda>st''. fst st'' = fst st'"]) (simp_all add: seedRow_st_store)
  show ?thesis by (simp add: seedRect_st_def Let_def col row)
qed

lemma phaseA_st_store: "fst (phaseA_st filler backRef region st) = fst st"
  unfolding phaseA_st_def
  by (rule fold_preserve[where P = "\<lambda>st''. fst st'' = fst st"]) (simp_all add: seedRect_st_store)

lemma fillCell_st_frame:
  "(\<forall>r. r \<noteq> targetRef \<longrightarrow> layers (fst (fillCell_st filler targetRef xy st)) r = layers (fst st) r) \<and>
   grids (fst (fillCell_st filler targetRef xy st)) = grids (fst st)"
  by (cases st) (simp add: fillCell_st_def Let_def)

lemma fold_fillCell_st_frame:
  "(\<forall>r. r \<noteq> targetRef \<longrightarrow> layers (fst (fold (fillCell_st filler targetRef) pts st)) r = layers (fst st) r) \<and>
   grids (fst (fold (fillCell_st filler targetRef) pts st)) = grids (fst st)"
proof (induction pts arbitrary: st)
  case Nil
  show ?case by simp
next
  case (Cons xy pts)
  from Cons.IH[of "fillCell_st filler targetRef xy st"] fillCell_st_frame[of targetRef filler xy st]
  show ?case by simp
qed

lemma fillRect_st_fold:
  "fillRect_st filler targetRef rect st = fold (fillCell_st filler targetRef) (rectPoints rect) st"
  by (simp add: fillRect_st_def rectPoints_def fold_concat_map fold_map comp_def)

lemma phaseB_st_fold:
  "phaseB_st filler targetRef region st = fold (fillCell_st filler targetRef) (regionPoints region) st"
proof -
  have "fillRect_st filler targetRef = (\<lambda>rect. fold (fillCell_st filler targetRef) (rectPoints rect))"
    by (rule ext)+ (simp add: fillRect_st_fold)
  then show ?thesis
    by (simp add: phaseB_st_def regionPoints_def fold_concat_map)
qed

text \<open>
  On the target layer and the random source the steps on the store do what \<open>fillRegion\<close>
  does on the layers read when the call starts, also when target and background are the
  same layer: the first phase writes no layer, and the second reads none but the target.
\<close>

lemma fold_sim:
  "(\<And>x g. f x (s, g) = (s, f' x g)) \<Longrightarrow> fold f xs (s, g) = (s, fold f' xs g)"
  by (induction xs arbitrary: g) simp_all

lemma seedColumn_st_sim:
  "seedColumn_st filler backRef region rect x (s, wangIds) =
     (s, seedColumn filler (layers s backRef) region rect x wangIds)"
  by (simp add: seedColumn_st_def seedColumn_def Let_def seedFrom_st_sim)

lemma seedRow_st_sim:
  "seedRow_st filler backRef region rect y (s, wangIds) =
     (s, seedRow filler (layers s backRef) region rect y wangIds)"
  by (simp add: seedRow_st_def seedRow_def Let_def seedFrom_st_sim)

lemma seedRect_st_sim:
  "seedRect_st filler backRef region rect (s, wangIds) =
     (s, seedRect filler (layers s backRef) region rect wangIds)"
  by (simp add: seedRect_st_def seedRect_def Let_def
      fold_sim[where f' = "seedColumn filler (layers s backRef) region rect", OF seedColumn_st_sim]
      fold_sim[where f' = "seedRow filler (layers s backRef) region rect", OF seedRow_st_sim])

lemma phaseA_st_sim:
  "phaseA_st filler backRef region (s, wangIds) = (s, phaseA filler (layers s backRef) region wangIds)"
  unfolding phaseA_st_def phaseA_def
  by (rule fold_sim) (rule seedRect_st_sim)

lemma fillCell_st_sim:
  "(layers (fst (fillCell_st filler targetRef xy st)) targetRef, snd (fillCell_st filler targetRef xy st),
    rand (fst (fillCell_st filler targetRef xy st))) =
   fillCell filler xy (layers (fst st) targetRef, snd st, rand (fst st))"
  by (cases st) (simp add: fillCell_st_def fillCell_def Let_def propagate_def)

lemma fold_fillCell_st_sim:
  "(layers (fst (fold (fillCell_st filler targetRef) pts st)) targetRef,
    snd (fold (fillCell_st filler targetRef) pts st),
    rand (fst (fold (fillCell_st filler targetRef) pts st))) =
   fold (fillCell filler) pts (layers (fst st) targetRef, snd st, rand (fst st))"
  by (rule fold_view[where view = "\<lambda>st. (layers (fst st) targetRef, snd st, rand (fst st))"])
     (rule fillCell_st_sim)

lemma fillRegion_st_sim:
  "(layers (fillRegion_st filler targetRef backRef wangIds region s) targetRef,
    rand (fillRegion_st filler targetRef backRef wangIds region s)) =
   fillRegion filler (layers s targetRef) (layers s backRef) wangIds region (rand s)"
proof -
  let ?a = "(s, phaseA filler (layers s backRef) region wangIds)"
  have "fold (fillCell filler) (regionPoints region)
          (layers s targetRef, phaseA filler (layers s backRef) region wangIds, rand s) =
        (layers (fst (fold (fillCell_st filler targetRef) (regionPoints region) ?a)) targetRef,
         snd (fold (fillCell_st filler targetRef) (regionPoints region) ?a),
         rand (fst (fold (fillCell_st filler targetRef) (regionPoints region) ?a)))"
    using fold_fillCell_st_sim[of filler targetRef "regionPoints region" ?a] by simp
  then show ?thesis
    by (simp add: fillRegion_st_def fillRegion_def phaseA_st_sim phaseB_st_fold phaseB_fold)
qed

text \<open>
  C9. A call of \<open>fillRegion\<close> changes no layer of the caller but the target: every
  other layer, the background among them when it is another layer than the target, is
  the same after the call, the cells of its two phases writing the store only through
  \<^verbatim>\<open>target.setCell\<close>; and the grid of constraints being received by value, the
  grids of the caller are the same after the call.
\<close>

theorem fillRegion_frame:
  "(\<forall>r. r \<noteq> targetRef \<longrightarrow>
      layers (fillRegion_st filler targetRef backRef (grids s gridRef) region s) r = layers s r) \<and>
   (backRef \<noteq> targetRef \<longrightarrow>
      layers (fillRegion_st filler targetRef backRef (grids s gridRef) region s) backRef = layers s backRef) \<and>
   grids (fillRegion_st filler targetRef backRef (grids s gridRef) region s) = grids s"
proof -
  let ?a = "phaseA_st filler backRef region (s, grids s gridRef)"
  let ?b = "fold (fillCell_st filler targetRef) (regionPoints region) ?a"
  have a: "fst ?a = s" by (simp add: phaseA_st_store)
  have res: "fillRegion_st filler targetRef backRef (grids s gridRef) region s = fst ?b"
    by (simp add: fillRegion_st_def phaseB_st_fold)
  from fold_fillCell_st_frame[of targetRef filler "regionPoints region" ?a] a
  have "(\<forall>r. r \<noteq> targetRef \<longrightarrow> layers (fst ?b) r = layers s r) \<and> grids (fst ?b) = grids s"
    by simp
  with res show ?thesis by simp
qed

theorem fillRegion_frame_witness:
  "(1 :: nat) \<noteq> 0 \<and>
   layers (fillRegion_st example_filler 0 1 (grids example_store 0) example_cell example_store) 1 =
     example_background \<and>
   grids (fillRegion_st example_filler 0 1 (grids example_store 0) example_cell example_store) =
     grids example_store \<and>
   layers (fillRegion_st example_filler 0 1 (grids example_store 0) example_cell example_store) 0 =
     setCell example_layer 1 1 (Some 1) \<and>
   setCell example_layer 1 1 (Some 1) \<noteq> layers example_store 0"
proof -
  have changed: "setCell example_layer 1 1 (Some 1) \<noteq> example_layer"
  proof
    assume "setCell example_layer 1 1 (Some 1) = example_layer"
    then have "cells (setCell example_layer 1 1 (Some 1)) (1, 1) = cells example_layer (1, 1)" by simp
    then show False by (simp add: setCell_def example_layer_def)
  qed
  have "fst (fillRegion example_filler (layers example_store 0) (layers example_store 1)
          (grids example_store 0) example_cell (rand example_store)) = setCell example_layer 1 1 (Some 1)"
    using example_fill by (simp add: example_store_def)
  then have target: "layers (fillRegion_st example_filler 0 1 (grids example_store 0) example_cell example_store) 0 =
      setCell example_layer 1 1 (Some 1)"
    unfolding fillRegion_st_sim[symmetric] by simp
  from fillRegion_frame [of 0 example_filler 1 example_store 0 example_cell] target changed
  show ?thesis by (simp add: example_store_def)
qed

end
